theory Spec2Isabelle
  imports Complex_Main "HOL-Library.Word" "HOL-Library.Code_Target_Numeral"
begin

section \<open>The JOE03 model loader of VDrift (model\_joe03.cpp)\<close>

text \<open>
  A shallow embedding of \<^verbatim>\<open>ModelJoe03::LoadFromHandle\<close>, \<^verbatim>\<open>ModelJoe03::ReadData\<close> and
  \<^verbatim>\<open>NeedsNormalSwap\<close>.

  \<^item> The storage (a plain file or a pack entry) is the list of bytes that remain to be read.
  \<^item> Every way in which the C++ code stops without returning \<^verbatim>\<open>true\<close> is a value of
    the type \<open>error\<close>: the two validation failures return \<^verbatim>\<open>false\<close>; a failed
    \<^verbatim>\<open>assert\<close>, a \<^verbatim>\<open>std::length_error\<close> and a read or write outside a vector end the
    process.  Assertions are taken to be compiled in.
  \<^item> The 32-bit floats of the file are a type parameter \<open>'f\<close>.  The \<^verbatim>\<open>Vec3\<close> arithmetic of
    mathvector.h and the float comparisons are parameters of the model (the record
    \<open>float_ops\<close>); nothing is assumed about them.
  \<^item> The one float that holds a count (\<^verbatim>\<open>newvertnum\<close>) is a natural number rounded to
    24 significant bits.
  \<^item> Memory is unbounded: no allocation fails for lack of memory.
  \<^item> Taking the address of element 0 of an empty vector in order to read or hand over
    zero elements is taken to be harmless.
\<close>

subsection \<open>Errors\<close>

datatype error =
    VersionMismatch int int       \<comment> \<open>found, expected: LoadFromHandle returns false\<close>
  | FaceCountExceeded int int     \<comment> \<open>found, maximum: LoadFromHandle returns false\<close>
  | ShortRead                     \<comment> \<open>assert(bytesread == count) in BinaryRead\<close>
  | LengthError                   \<comment> \<open>a vector is given a negative size\<close>
  | AssertionFailed               \<comment> \<open>one of the index assertions\<close>
  | OutOfBounds                   \<comment> \<open>a vector element outside the vector (undefined behaviour)\<close>
  | IntOverflow                   \<comment> \<open>signed overflow of an int (undefined behaviour)\<close>

fun returns_false :: "error \<Rightarrow> bool" where
  "returns_false (VersionMismatch found expected) = True"
| "returns_false (FaceCountExceeded found maximum) = True"
| "returns_false e = False"

fun ebind :: "error + 'a \<Rightarrow> ('a \<Rightarrow> error + 'b) \<Rightarrow> error + 'b" where
  "ebind (Inl e) k = Inl e"
| "ebind (Inr x) k = k x"

text \<open>A \<^verbatim>\<open>for\<close> loop whose body may stop the program: the body is run on each element
  of the list in turn, threading the state.\<close>

fun efold :: "('a \<Rightarrow> 's \<Rightarrow> error + 's) \<Rightarrow> 'a list \<Rightarrow> 's \<Rightarrow> error + 's" where
  "efold body [] s = Inr s"
| "efold body (x # xs) s = ebind (body x s) (efold body xs)"

text \<open>Reading and writing an element of a vector, and a
  \<^verbatim>\<open>for (i = 0; i < n; i++) xs[i] = f(xs[i])\<close> loop over one.  An index outside the
  vector is undefined behaviour in C++ and the error \<open>OutOfBounds\<close> here.\<close>

definition vector_at :: "'a list \<Rightarrow> int \<Rightarrow> error + 'a" where
  "vector_at xs i = (if 0 \<le> i \<and> i < int (length xs) then Inr (xs ! nat i) else Inl OutOfBounds)"

definition vector_store :: "'a list \<Rightarrow> nat \<Rightarrow> 'a \<Rightarrow> error + 'a list" where
  "vector_store xs k x = (if k < length xs then Inr (xs[k := x]) else Inl OutOfBounds)"

definition update_each :: "nat \<Rightarrow> ('a \<Rightarrow> error + 'a) \<Rightarrow> 'a list \<Rightarrow> error + 'a list" where
  "update_each n f xs =
     efold (\<lambda>i ys. ebind (vector_at ys (int i)) (\<lambda>y. ebind (f y) (\<lambda>y'. vector_store ys i y')))
       [0..<n] xs"

subsection \<open>Text written to the error stream\<close>

definition digit_char :: "nat \<Rightarrow> char" where
  "digit_char d = char_of (48 + d)"

fun show_nat :: "nat \<Rightarrow> string" where
  "show_nat n = (if n < 10 then [digit_char n] else show_nat (n div 10) @ [digit_char (n mod 10)])"

definition show_int :: "int \<Rightarrow> string" where
  "show_int i = (if i < 0 then CHR ''-'' # show_nat (nat (- i)) else show_nat (nat i))"

fun err_output :: "error \<Rightarrow> string" where
  "err_output (VersionMismatch found expected) =
     ''Invalid file format (Version is '' @ show_int found @ '' not '' @ show_int expected @ ''). ''"
| "err_output (FaceCountExceeded found maximum) =
     show_int found @ '' faces (max '' @ show_int maximum @ ''). ''"
| "err_output e = []"

subsection \<open>Constants\<close>

definition JOE_MAX_FACES :: int where
  "JOE_MAX_FACES = 32000"

definition JOE_VERSION :: int where
  "JOE_VERSION = 3"

definition INT_MAX :: int where
  "INT_MAX = 2147483647"

subsection \<open>Data\<close>

type_synonym byte = "8 word"

type_synonym 'f vec3 = "'f \<times> 'f \<times> 'f"

record JoeHeader =
  magic :: int
  version :: int
  num_faces :: int
  num_frames :: int

text \<open>The three \<^verbatim>\<open>short[3]\<close> arrays of a face, each read by its corner number.\<close>

record JoeFace =
  vertexIndex :: "int \<times> int \<times> int"
  normalIndex :: "int \<times> int \<times> int"
  textureIndex :: "int \<times> int \<times> int"

fun at3 :: "'a \<times> 'a \<times> 'a \<Rightarrow> nat \<Rightarrow> 'a" where
  "at3 (a, b, c) v = (if v = 0 then a else if v = 1 then b else c)"

record 'f JoeFrame =
  num_verts :: int
  num_texcoords :: int
  num_normals :: int
  faces :: "JoeFace list"
  verts :: "'f vec3 list"
  normals :: "'f vec3 list"
  texcoords :: "('f \<times> 'f) list"

record 'f JoeObject =
  info :: JoeHeader
  frames :: "'f JoeFrame list"

record VertEntry =
  original_index :: int
  norm_index :: int
  tex_index :: int

definition empty_VertEntry :: VertEntry where
  "empty_VertEntry = \<lparr>original_index = - 1, norm_index = - 1, tex_index = - 1\<rparr>"

text \<open>What \<^verbatim>\<open>ReadData\<close> hands to the mesh: \<^verbatim>\<open>SetFaces\<close>, \<^verbatim>\<open>SetVertices\<close>,
  \<^verbatim>\<open>SetNormals\<close> and \<^verbatim>\<open>SetTexCoords(0, ...)\<close>.\<close>

record 'f mesh =
  m_faces :: "int list"
  m_vertices :: "'f list"
  m_normals :: "'f list"
  m_texcoords :: "'f list"

text \<open>The float operations the loader uses.  mathvector.h and endian\_utility.h are not
  among the sources, so each operation is a parameter.\<close>

record 'f float_ops =
  float_of_bytes :: "byte list \<Rightarrow> 'f"        \<comment> \<open>ENDIAN\_SWAP\_FLOAT of four stored bytes\<close>
  vec_zero :: "'f vec3"                          \<comment> \<open>a default-constructed Vec3\<close>
  vec_add :: "'f vec3 \<Rightarrow> 'f vec3 \<Rightarrow> 'f vec3"
  vec_sub :: "'f vec3 \<Rightarrow> 'f vec3 \<Rightarrow> 'f vec3"
  vec_cross :: "'f vec3 \<Rightarrow> 'f vec3 \<Rightarrow> 'f vec3"
  vec_dot :: "'f vec3 \<Rightarrow> 'f vec3 \<Rightarrow> 'f"
  vec_magnitude :: "'f vec3 \<Rightarrow> 'f"
  vec_normalize :: "'f vec3 \<Rightarrow> 'f vec3"
  vec_scale :: "'f vec3 \<Rightarrow> 'f vec3"             \<comment> \<open>temp * MODEL\_SCALE\<close>
  gt_small :: "'f \<Rightarrow> bool"                      \<comment> \<open>x > 0.0001\<close>
  lt_half :: "'f \<Rightarrow> bool"                       \<comment> \<open>x < 0.5\<close>
  gt_neg_half :: "'f \<Rightarrow> bool"                   \<comment> \<open>x > -0.5\<close>

subsection \<open>Byte order and record layout\<close>

fun le_nat :: "byte list \<Rightarrow> nat" where
  "le_nat [] = 0"
| "le_nat (b # bs) = unat b + 256 * le_nat bs"

definition signed_of :: "nat \<Rightarrow> nat \<Rightarrow> int" where
  "signed_of w n = (if n mod 2 ^ w < 2 ^ (w - 1) then int (n mod 2 ^ w) else int (n mod 2 ^ w) - 2 ^ w)"

text \<open>Modelled from the spec: \<^verbatim>\<open>ENDIAN_SWAP_32\<close> and \<^verbatim>\<open>ENDIAN_SWAP_16\<close> of
  endian\_utility.h, which is not among the sources.  The format is stored in one fixed
  byte order and corrected to host order on read; the stored order is taken to be least
  significant byte first.\<close>

definition int32_of_bytes :: "byte list \<Rightarrow> int" where
  "int32_of_bytes bs = signed_of 32 (le_nat (take 4 bs))"

definition int16_of_bytes :: "byte list \<Rightarrow> int" where
  "int16_of_bytes bs = signed_of 16 (le_nat (take 2 bs))"

definition field :: "nat \<Rightarrow> nat \<Rightarrow> byte list \<Rightarrow> byte list" where
  "field off len bs = take len (drop off bs)"

definition JoeHeader_of_bytes :: "byte list \<Rightarrow> JoeHeader" where
  "JoeHeader_of_bytes bs =
     \<lparr>magic = int32_of_bytes (field 0 4 bs),
      version = int32_of_bytes (field 4 4 bs),
      num_faces = int32_of_bytes (field 8 4 bs),
      num_frames = int32_of_bytes (field 12 4 bs)\<rparr>"

definition short3_of_bytes :: "byte list \<Rightarrow> int \<times> int \<times> int" where
  "short3_of_bytes bs =
     (int16_of_bytes (field 0 2 bs), int16_of_bytes (field 2 2 bs), int16_of_bytes (field 4 2 bs))"

definition JoeFace_of_bytes :: "byte list \<Rightarrow> JoeFace" where
  "JoeFace_of_bytes bs =
     \<lparr>vertexIndex = short3_of_bytes (field 0 6 bs),
      normalIndex = short3_of_bytes (field 6 6 bs),
      textureIndex = short3_of_bytes (field 12 6 bs)\<rparr>"

definition JoeVertex_of_bytes :: "'f float_ops \<Rightarrow> byte list \<Rightarrow> 'f vec3" where
  "JoeVertex_of_bytes ops bs =
     (float_of_bytes ops (field 0 4 bs), float_of_bytes ops (field 4 4 bs),
      float_of_bytes ops (field 8 4 bs))"

definition JoeTexCoord_of_bytes :: "'f float_ops \<Rightarrow> byte list \<Rightarrow> 'f \<times> 'f" where
  "JoeTexCoord_of_bytes ops bs =
     (float_of_bytes ops (field 0 4 bs), float_of_bytes ops (field 4 4 bs))"

text \<open>The \<open>count\<close> records of \<open>sz\<close> bytes each that a buffer holds.\<close>

fun records :: "nat \<Rightarrow> nat \<Rightarrow> byte list \<Rightarrow> byte list list" where
  "records sz 0 bs = []"
| "records sz (Suc n) bs = take sz bs # records sz n (drop sz bs)"

subsection \<open>BinaryRead\<close>

text \<open>\<^verbatim>\<open>fread\<close> delivers \<open>count\<close> elements of \<open>sz\<close> bytes when the storage still holds
  them; otherwise it returns fewer and the assertion stops the program.  The result is
  the buffer and the storage that remains.\<close>

definition BinaryRead :: "nat \<Rightarrow> nat \<Rightarrow> byte list \<Rightarrow> error + (byte list \<times> byte list)" where
  "BinaryRead sz count f =
     (if sz * count \<le> length f then Inr (take (sz * count) f, drop (sz * count) f)
      else Inl ShortRead)"

text \<open>\<^verbatim>\<open>vector::resize(n)\<close> and the sized constructor with an \<^verbatim>\<open>int\<close> argument: a negative
  \<open>n\<close> becomes a size beyond \<^verbatim>\<open>max_size()\<close>.\<close>

definition vector_size :: "int \<Rightarrow> error + nat" where
  "vector_size n = (if n < 0 then Inl LengthError else Inr (nat n))"

definition read_int :: "byte list \<Rightarrow> error + (int \<times> byte list)" where
  "read_int f = ebind (BinaryRead 4 1 f) (\<lambda>(buf, f'). Inr (int32_of_bytes buf, f'))"

subsection \<open>ReadData: decoding the frames\<close>

definition read_frame :: "'f float_ops \<Rightarrow> int \<Rightarrow> byte list \<Rightarrow> error + ('f JoeFrame \<times> byte list)" where
  "read_frame ops nfaces f0 =
     ebind (vector_size nfaces) (\<lambda>nf.
     ebind (BinaryRead 18 nf f0) (\<lambda>(face_buf, f1).
     ebind (read_int f1) (\<lambda>(nverts, f2).
     ebind (read_int f2) (\<lambda>(ntexcoords, f3).
     ebind (read_int f3) (\<lambda>(nnormals, f4).
     ebind (vector_size nverts) (\<lambda>nv.
     ebind (vector_size nnormals) (\<lambda>nn.
     ebind (vector_size ntexcoords) (\<lambda>nt.
     ebind (BinaryRead 12 nv f4) (\<lambda>(vert_buf, f5).
     ebind (BinaryRead 12 nn f5) (\<lambda>(normal_buf, f6).
     ebind (BinaryRead 8 nt f6) (\<lambda>(texcoord_buf, f7).
       Inr (\<lparr>num_verts = nverts, num_texcoords = ntexcoords, num_normals = nnormals,
             faces = map JoeFace_of_bytes (records 18 nf face_buf),
             verts = map (JoeVertex_of_bytes ops) (records 12 nv vert_buf),
             normals = map (JoeVertex_of_bytes ops) (records 12 nn normal_buf),
             texcoords = map (JoeTexCoord_of_bytes ops) (records 8 nt texcoord_buf)\<rparr>,
            f7))))))))))))"

fun read_frames :: "'f float_ops \<Rightarrow> int \<Rightarrow> nat \<Rightarrow> byte list \<Rightarrow> error + ('f JoeFrame list \<times> byte list)" where
  "read_frames ops nfaces 0 f = Inr ([], f)"
| "read_frames ops nfaces (Suc k) f =
     ebind (read_frame ops nfaces f) (\<lambda>(fr, f').
     ebind (read_frames ops nfaces k f') (\<lambda>(frs, f'').
       Inr (fr # frs, f'')))"

definition ReadData_frames :: "'f float_ops \<Rightarrow> JoeHeader \<Rightarrow> byte list \<Rightarrow> error + ('f JoeObject \<times> byte list)" where
  "ReadData_frames ops hdr f =
     ebind (vector_size (num_frames hdr)) (\<lambda>n.
     ebind (read_frames ops (num_faces hdr) n f) (\<lambda>(frs, f').
       Inr (\<lparr>info = hdr, frames = frs\<rparr>, f')))"

subsection \<open>ReadData: scaling\<close>

definition scale_frame :: "'f float_ops \<Rightarrow> 'f JoeFrame \<Rightarrow> error + 'f JoeFrame" where
  "scale_frame ops fr =
     ebind (update_each (nat (num_verts fr)) (\<lambda>p. Inr (vec_scale ops p)) (verts fr)) (\<lambda>vs.
       Inr (fr\<lparr>verts := vs\<rparr>))"

definition ReadData_scale :: "'f float_ops \<Rightarrow> 'f JoeObject \<Rightarrow> error + 'f JoeObject" where
  "ReadData_scale ops obj =
     ebind (update_each (nat (num_frames (info obj))) (scale_frame ops) (frames obj)) (\<lambda>frs.
       Inr (obj\<lparr>frames := frs\<rparr>))"

subsection \<open>NeedsNormalSwap\<close>

text \<open>Integer division of C: the quotient is truncated towards zero.\<close>

definition c_div :: "int \<Rightarrow> int \<Rightarrow> int" where
  "c_div a b = sgn a * sgn b * (\<bar>a\<bar> div \<bar>b\<bar>)"

definition gather_corner :: "'f JoeFrame \<Rightarrow> JoeFace \<Rightarrow> nat \<Rightarrow> error + ('f vec3 \<times> 'f vec3)" where
  "gather_corner fr face v =
     (if \<not> at3 (vertexIndex face) v < num_verts fr then Inl AssertionFailed
      else if \<not> at3 (normalIndex face) v < num_normals fr then Inl AssertionFailed
      else ebind (vector_at (verts fr) (at3 (vertexIndex face) v)) (\<lambda>t.
           ebind (vector_at (normals fr) (at3 (normalIndex face) v)) (\<lambda>n.
             Inr (t, n))))"

definition flip_vote :: "'f float_ops \<Rightarrow> 'f vec3 list \<Rightarrow> 'f vec3 list \<Rightarrow> bool" where
  "flip_vote ops tri norms =
     (let norm = vec_add ops (vec_add ops (vec_add ops (vec_zero ops) (norms ! 0)) (norms ! 1)) (norms ! 2);
          tnorm = vec_cross ops (vec_sub ops (tri ! 2) (tri ! 0)) (vec_sub ops (tri ! 1) (tri ! 0))
      in if gt_small ops (vec_magnitude ops tnorm) \<and> gt_small ops (vec_magnitude ops norm)
         then (let norm' = vec_normalize ops norm; tnorm' = vec_normalize ops tnorm
               in lt_half ops (vec_dot ops norm' tnorm') \<and> gt_neg_half ops (vec_dot ops norm' tnorm'))
         else False)"

definition face_flip_vote :: "'f float_ops \<Rightarrow> 'f JoeFrame \<Rightarrow> JoeFace \<Rightarrow> error + bool" where
  "face_flip_vote ops fr face =
     ebind (gather_corner fr face 0) (\<lambda>(t0, n0).
     ebind (gather_corner fr face 1) (\<lambda>(t1, n1).
     ebind (gather_corner fr face 2) (\<lambda>(t2, n2).
       Inr (flip_vote ops [t0, t1, t2] [n0, n1, n2]))))"

definition normal_flip_count :: "'f float_ops \<Rightarrow> int \<Rightarrow> 'f JoeFrame \<Rightarrow> error + int" where
  "normal_flip_count ops nfaces fr =
     efold (\<lambda>i c. ebind (vector_at (faces fr) (int i)) (\<lambda>face.
                   ebind (face_flip_vote ops fr face) (\<lambda>b.
                     Inr (if b then c + 1 else c))))
       [0..<nat nfaces] 0"

definition NeedsNormalSwap :: "'f float_ops \<Rightarrow> 'f JoeObject \<Rightarrow> error + bool" where
  "NeedsNormalSwap ops obj =
     efold (\<lambda>f need_normal_flip.
              ebind (vector_at (frames obj) (int f)) (\<lambda>fr.
              ebind (normal_flip_count ops (num_faces (info obj)) fr) (\<lambda>c.
                Inr (if c > c_div (num_faces (info obj)) 4 then True else need_normal_flip))))
       [0..<nat (num_frames (info obj))] False"

subsection \<open>ReadData: correcting the normals\<close>

definition swap_yz :: "'f vec3 \<Rightarrow> 'f vec3" where
  "swap_yz n = (case n of (x, y, z) \<Rightarrow> (x, z, y))"

definition negate_y :: "('f::uminus) vec3 \<Rightarrow> 'f vec3" where
  "negate_y n = (case n of (x, y, z) \<Rightarrow> (x, - y, z))"

definition correct_normal :: "('f::uminus) vec3 \<Rightarrow> 'f vec3" where
  "correct_normal n = negate_y (swap_yz n)"

definition correct_frame :: "('f::uminus) JoeFrame \<Rightarrow> error + 'f JoeFrame" where
  "correct_frame fr =
     ebind (update_each (nat (num_normals fr)) (\<lambda>n. Inr (correct_normal n)) (normals fr)) (\<lambda>ns.
       Inr (fr\<lparr>normals := ns\<rparr>))"

definition ReadData_correct :: "('f::uminus) float_ops \<Rightarrow> 'f JoeObject \<Rightarrow> error + 'f JoeObject" where
  "ReadData_correct ops obj =
     ebind (NeedsNormalSwap ops obj) (\<lambda>need.
       if need
       then ebind (update_each (nat (num_frames (info obj))) correct_frame (frames obj)) (\<lambda>frs.
              Inr (obj\<lparr>frames := frs\<rparr>))
       else Inr obj)"

subsection \<open>ReadData: building the unique vertices\<close>

definition int_mul :: "int \<Rightarrow> int \<Rightarrow> error + int" where
  "int_mul a b = (if - INT_MAX - 1 \<le> a * b \<and> a * b \<le> INT_MAX then Inr (a * b) else Inl IntOverflow)"

definition weld_corner ::
  "'f JoeFrame \<Rightarrow> nat \<times> nat \<Rightarrow> VertEntry list \<times> int list \<Rightarrow> error + (VertEntry list \<times> int list)" where
  "weld_corner fr = (\<lambda>(i, v) (vert_master, v_faces).
     ebind (vector_at (faces fr) (int i)) (\<lambda>face.
     let vi = at3 (vertexIndex face) v; ni = at3 (normalIndex face) v; ti = at3 (textureIndex face) v
     in ebind (vector_at vert_master vi) (\<lambda>ve.
       if original_index ve = - 1 then
         (if ti \<ge> 0
          then ebind (vector_store v_faces (i * 3 + v) vi) (\<lambda>vf.
                 Inr (vert_master[nat vi := \<lparr>original_index = vi, norm_index = ni, tex_index = ti\<rparr>], vf))
          else Inl AssertionFailed)
       else if norm_index ve = ni \<and> tex_index ve = ti then
         ebind (vector_store v_faces (i * 3 + v) vi) (\<lambda>vf.
           if tex_index ve \<ge> 0 then Inr (vert_master, vf) else Inl AssertionFailed)
       else
         (if ti \<ge> 0
          then ebind (vector_store v_faces (i * 3 + v) (int (length vert_master))) (\<lambda>vf.
                 Inr (vert_master @ [\<lparr>original_index = vi, norm_index = ni, tex_index = ti\<rparr>], vf))
          else Inl AssertionFailed))))"

definition ReadData_weld :: "'f JoeObject \<Rightarrow> error + (VertEntry list \<times> int list)" where
  "ReadData_weld obj =
     ebind (vector_at (frames obj) 0) (\<lambda>fr.
     ebind (vector_size (num_verts fr)) (\<lambda>nv.
     ebind (int_mul (num_verts fr) 2) (\<lambda>reserved.
     ebind (int_mul (num_faces (info obj)) 3) (\<lambda>nf3.
     ebind (vector_size nf3) (\<lambda>nidx.
       efold (weld_corner fr) (List.product [0..<nat (num_faces (info obj))] [0..<3])
         (replicate nv empty_VertEntry, replicate nidx 0))))))"

subsection \<open>ReadData: filling the flat arrays\<close>

definition store3 :: "'a list \<Rightarrow> nat \<Rightarrow> 'a \<times> 'a \<times> 'a \<Rightarrow> error + 'a list" where
  "store3 xs k p = (case p of (a, b, c) \<Rightarrow>
     ebind (vector_store xs k a) (\<lambda>xs1.
     ebind (vector_store xs1 (k + 1) b) (\<lambda>xs2.
       vector_store xs2 (k + 2) c)))"

definition store2 :: "'a list \<Rightarrow> nat \<Rightarrow> 'a \<times> 'a \<Rightarrow> error + 'a list" where
  "store2 xs k p = (case p of (a, b) \<Rightarrow>
     ebind (vector_store xs k a) (\<lambda>xs1.
       vector_store xs1 (k + 1) b))"

definition fill_slot ::
  "('f::zero) JoeFrame \<Rightarrow> VertEntry list \<Rightarrow> nat \<Rightarrow> 'f list \<times> 'f list \<times> 'f list \<Rightarrow>
     error + ('f list \<times> 'f list \<times> 'f list)" where
  "fill_slot fr vert_master i = (\<lambda>(v_vertices, v_texcoords, v_normals).
     ebind (vector_at vert_master (int i)) (\<lambda>ve.
       if original_index ve \<ge> 0 then
         if int i * 3 + 2 > INT_MAX then Inl IntOverflow
         else
         ebind (vector_at (verts fr) (original_index ve)) (\<lambda>p.
         ebind (store3 v_vertices (i * 3) p) (\<lambda>vv.
         ebind (vector_at (normals fr) (norm_index ve)) (\<lambda>n.
         ebind (store3 v_normals (i * 3) n) (\<lambda>vn.
         if tex_index ve < num_texcoords fr
         then ebind (vector_at (texcoords fr) (tex_index ve)) (\<lambda>t.
              ebind (store2 v_texcoords (i * 2) t) (\<lambda>vt.
                Inr (vv, vt, vn)))
         else ebind (store2 v_texcoords (i * 2) (0, 0)) (\<lambda>vt.
                Inr (vv, vt, vn))))))
       else Inr (v_vertices, v_texcoords, v_normals)))"

text \<open>The vertex count is held in a \<^verbatim>\<open>float\<close> (\<^verbatim>\<open>newvertnum\<close>) and the array sizes are
  the products \<^verbatim>\<open>newvertnum*3\<close> and \<^verbatim>\<open>newvertnum*2\<close>, computed in \<^verbatim>\<open>float\<close> and then
  converted to \<^verbatim>\<open>size_t\<close>.  A \<^verbatim>\<open>float\<close> is taken to be an IEEE 754 binary32 number
  (24 significant bits), and a conversion or an operation to be rounded to the nearest
  such number, ties to the even significand.  On the natural numbers that occur here
  this rounding is \<open>float_of_nat\<close>: a number up to \<open>2 ^ 24\<close> is kept, a greater one loses
  its low bits.\<close>

fun bit_length :: "nat \<Rightarrow> nat" where
  "bit_length m = (if m = 0 then 0 else Suc (bit_length (m div 2)))"

declare bit_length.simps [simp del]

definition float_of_nat :: "nat \<Rightarrow> nat" where
  "float_of_nat m =
     (if m \<le> 2 ^ 24 then m
      else let e = bit_length m - 24; q = m div 2 ^ e; r = m mod 2 ^ e
           in if 2 * r > 2 ^ e \<or> (2 * r = 2 ^ e \<and> odd q) then (q + 1) * 2 ^ e else q * 2 ^ e)"

text \<open>The product of two floats that hold natural numbers.\<close>

definition float_mul :: "nat \<Rightarrow> nat \<Rightarrow> nat" where
  "float_mul a b = float_of_nat (a * b)"

text \<open>The loop \<^verbatim>\<open>for (int i = 0; i < newvertnum; ++i)\<close> compares the float of \<open>i\<close> with
  \<^verbatim>\<open>newvertnum\<close>: it runs through the indices \<open>0, 1, 2, \<dots>\<close> for as long as the
  comparison holds, and at the table length, whose float is \<^verbatim>\<open>newvertnum\<close>, it does not
  hold.\<close>

definition fill_indices :: "nat \<Rightarrow> nat list" where
  "fill_indices n = takeWhile (\<lambda>i. float_of_nat i < float_of_nat n) [0..<Suc n]"

definition ReadData_fill ::
  "('f::zero) JoeFrame \<Rightarrow> VertEntry list \<Rightarrow> error + ('f list \<times> 'f list \<times> 'f list)" where
  "ReadData_fill fr vert_master =
     (let newvertnum = float_of_nat (length vert_master)
      in efold (fill_slot fr vert_master) (fill_indices (length vert_master))
           (replicate (float_mul newvertnum 3) 0, replicate (float_mul newvertnum 2) 0,
            replicate (float_mul newvertnum 3) 0))"

subsection \<open>ReadData and LoadFromHandle\<close>

text \<open>The object as it stands when the welding starts: frames read, scaled and corrected.\<close>

definition ReadData_object ::
  "('f::{zero,uminus}) float_ops \<Rightarrow> JoeHeader \<Rightarrow> byte list \<Rightarrow> error + 'f JoeObject" where
  "ReadData_object ops hdr f =
     ebind (ReadData_frames ops hdr f) (\<lambda>(obj, f').
     ebind (ReadData_scale ops obj) (\<lambda>scaled.
       ReadData_correct ops scaled))"

definition ReadData :: "('f::{zero,uminus}) float_ops \<Rightarrow> JoeHeader \<Rightarrow> byte list \<Rightarrow> error + 'f mesh" where
  "ReadData ops hdr f =
     ebind (ReadData_object ops hdr f) (\<lambda>obj.
     ebind (ReadData_weld obj) (\<lambda>(vert_master, v_faces).
     ebind (vector_at (frames obj) 0) (\<lambda>fr.
     ebind (ReadData_fill fr vert_master) (\<lambda>(v_vertices, v_texcoords, v_normals).
       Inr \<lparr>m_faces = v_faces, m_vertices = v_vertices, m_normals = v_normals,
            m_texcoords = v_texcoords\<rparr>))))"

text \<open>\<^verbatim>\<open>GenerateMeshMetrics\<close> belongs to the mesh and is not among the sources; it is taken
  to return.\<close>

definition LoadFromHandle :: "('f::{zero,uminus}) float_ops \<Rightarrow> byte list \<Rightarrow> error + 'f mesh" where
  "LoadFromHandle ops f =
     ebind (BinaryRead 16 1 f) (\<lambda>(buf, f').
       let hdr = JoeHeader_of_bytes buf
       in if version hdr \<noteq> JOE_VERSION
          then Inl (VersionMismatch (version hdr) JOE_VERSION)
          else if num_faces hdr > JOE_MAX_FACES
          then Inl (FaceCountExceeded (num_faces hdr) JOE_MAX_FACES)
          else ReadData ops hdr f')"

subsection \<open>The float operations read over the reals\<close>

text \<open>Modelled from the spec: the \<^verbatim>\<open>Vec3\<close> operations of mathvector.h, which is not among
  the sources (sum, difference, cross product, dot product, magnitude, normalization),
  with every float read as the real number it stands for and no rounding.  The four
  stored bytes of a float are read as an integer.  This instance serves to run the loader
  on concrete files; the theorems below hold for every choice of operations.\<close>

definition exact_ops :: "real float_ops" where
  "exact_ops =
     \<lparr>float_of_bytes = (\<lambda>bs. real_of_int (int32_of_bytes bs)),
      vec_zero = (0, 0, 0),
      vec_add = (\<lambda>(a, b, c) (x, y, z). (a + x, b + y, c + z)),
      vec_sub = (\<lambda>(a, b, c) (x, y, z). (a - x, b - y, c - z)),
      vec_cross = (\<lambda>(a, b, c) (x, y, z). (b * z - c * y, c * x - a * z, a * y - b * x)),
      vec_dot = (\<lambda>(a, b, c) (x, y, z). a * x + b * y + c * z),
      vec_magnitude = (\<lambda>(a, b, c). sqrt (a * a + b * b + c * c)),
      vec_normalize = (\<lambda>(a, b, c). (a / sqrt (a * a + b * b + c * c),
                                     b / sqrt (a * a + b * b + c * c),
                                     c / sqrt (a * a + b * b + c * c))),
      vec_scale = (\<lambda>(a, b, c). (a * 1, b * 1, c * 1)),
      gt_small = (\<lambda>x. x > 1 / 10000),
      lt_half = (\<lambda>x. x < 1 / 2),
      gt_neg_half = (\<lambda>x. x > - (1 / 2))\<rparr>"

section \<open>Notions used in the statements\<close>

subsection \<open>Sizes and index ranges\<close>

text \<open>A frame whose vectors have the sizes that \<^verbatim>\<open>resize\<close> gave them: as many faces as the
  header says and as many vertices, normals and texture coordinates as the frame's own
  counts say.\<close>

definition frame_sized :: "int \<Rightarrow> 'f JoeFrame \<Rightarrow> bool" where
  "frame_sized nfaces fr \<longleftrightarrow>
     0 \<le> nfaces \<and> length (faces fr) = nat nfaces \<and>
     0 \<le> num_verts fr \<and> length (verts fr) = nat (num_verts fr) \<and>
     0 \<le> num_normals fr \<and> length (normals fr) = nat (num_normals fr) \<and>
     0 \<le> num_texcoords fr \<and> length (texcoords fr) = nat (num_texcoords fr)"

definition object_sized :: "'f JoeObject \<Rightarrow> bool" where
  "object_sized obj \<longleftrightarrow>
     0 \<le> num_frames (info obj) \<and> length (frames obj) = nat (num_frames (info obj)) \<and>
     list_all (frame_sized (num_faces (info obj))) (frames obj)"

text \<open>The vertex and the normal index of a corner name a vertex and a normal of the frame:
  what the assertions of \<^verbatim>\<open>NeedsNormalSwap\<close> ask from above, and the vector accesses
  from below.\<close>

definition corner_in_range :: "'f JoeFrame \<Rightarrow> JoeFace \<Rightarrow> nat \<Rightarrow> bool" where
  "corner_in_range fr face v \<longleftrightarrow>
     0 \<le> at3 (vertexIndex face) v \<and> at3 (vertexIndex face) v < num_verts fr \<and>
     0 \<le> at3 (normalIndex face) v \<and> at3 (normalIndex face) v < num_normals fr"

definition frame_in_range :: "'f JoeFrame \<Rightarrow> bool" where
  "frame_in_range fr = list_all (\<lambda>face. list_all (corner_in_range fr face) [0..<3]) (faces fr)"

text \<open>No corner has a negative texture coordinate index: what the assertions of the
  welder ask of frame 0.\<close>

definition texture_nonneg :: "'f JoeFrame \<Rightarrow> bool" where
  "texture_nonneg fr = list_all (\<lambda>face. list_all (\<lambda>v. 0 \<le> at3 (textureIndex face) v) [0..<3]) (faces fr)"

definition indices_in_range :: "'f JoeObject \<Rightarrow> bool" where
  "indices_in_range obj \<longleftrightarrow>
     list_all frame_in_range (frames obj) \<and>
     (case frames obj of [] \<Rightarrow> True | fr # frs \<Rightarrow> texture_nonneg fr)"

subsection \<open>The loops over a frame in closed form\<close>

definition scaled_frame :: "'f float_ops \<Rightarrow> 'f JoeFrame \<Rightarrow> 'f JoeFrame" where
  "scaled_frame ops fr = fr\<lparr>verts := map (vec_scale ops) (verts fr)\<rparr>"

definition corrected_frame :: "('f::uminus) JoeFrame \<Rightarrow> 'f JoeFrame" where
  "corrected_frame fr = fr\<lparr>normals := map correct_normal (normals fr)\<rparr>"

subsection \<open>Corners and table entries\<close>

text \<open>The (vertex, normal, texture coordinate) index triple of corner \<open>v\<close> of face
  \<open>i\<close>.\<close>

definition corner :: "'f JoeFrame \<Rightarrow> nat \<times> nat \<Rightarrow> int \<times> int \<times> int" where
  "corner fr = (\<lambda>(i, v). (at3 (vertexIndex (faces fr ! i)) v, at3 (normalIndex (faces fr ! i)) v,
                            at3 (textureIndex (faces fr ! i)) v))"

definition entry_of :: "int \<times> int \<times> int \<Rightarrow> VertEntry" where
  "entry_of = (\<lambda>(vi, ni, ti). \<lparr>original_index = vi, norm_index = ni, tex_index = ti\<rparr>)"

definition triple_of :: "VertEntry \<Rightarrow> int \<times> int \<times> int" where
  "triple_of e = (original_index e, norm_index e, tex_index e)"

text \<open>The welder takes a slot for empty when its \<open>original_index\<close> is \<open>-1\<close>.\<close>

definition populated :: "VertEntry \<Rightarrow> bool" where
  "populated e \<longleftrightarrow> original_index e \<noteq> - 1"

text \<open>The texture coordinate that the flat array is to hold for a table entry.\<close>

definition expected_texcoord :: "('f::zero) JoeFrame \<Rightarrow> VertEntry \<Rightarrow> 'f \<times> 'f" where
  "expected_texcoord fr e =
     (if tex_index e < num_texcoords fr then texcoords fr ! nat (tex_index e) else (0, 0))"

text \<open>A table entry that the filling loop can gather: if it is populated there, its
  vertex and normal exist and its texture coordinate index is not negative.\<close>

definition slot_in_range :: "'f JoeFrame \<Rightarrow> VertEntry \<Rightarrow> bool" where
  "slot_in_range fr e \<longleftrightarrow>
     (0 \<le> original_index e \<longrightarrow>
        original_index e < num_verts fr \<and> 0 \<le> norm_index e \<and> norm_index e < num_normals fr \<and>
        0 \<le> tex_index e)"

subsection \<open>Objects\<close>

definition scaled_object :: "'f float_ops \<Rightarrow> 'f JoeObject \<Rightarrow> 'f JoeObject" where
  "scaled_object ops obj = obj\<lparr>frames := map (scaled_frame ops) (frames obj)\<rparr>"

definition corrected_object :: "('f::uminus) JoeObject \<Rightarrow> 'f JoeObject" where
  "corrected_object obj = obj\<lparr>frames := map corrected_frame (frames obj)\<rparr>"

text \<open>The header that the first sixteen bytes of a file hold.\<close>

definition file_header :: "byte list \<Rightarrow> JoeHeader" where
  "file_header f = JoeHeader_of_bytes (take 16 f)"

text \<open>An object with another value in the magic field of its header.\<close>

definition with_magic :: "int \<Rightarrow> 'f JoeObject \<Rightarrow> 'f JoeObject" where
  "with_magic m obj = obj\<lparr>info := (info obj)\<lparr>magic := m\<rparr>\<rparr>"

subsection \<open>Concrete files\<close>

text \<open>One frame, four vertices, two normals, one texture coordinate and two faces.  The
  faces share vertex 0 with different normals, and one corner names texture coordinate 1,
  which the frame does not have.\<close>

definition quad_file :: "byte list" where
  "quad_file =
     [7, 0, 0, 0,  3, 0, 0, 0,  2, 0, 0, 0,  1, 0, 0, 0,
      0, 0, 1, 0, 2, 0,  0, 0, 1, 0, 1, 0,  0, 0, 0, 0, 0, 0,
      0, 0, 3, 0, 2, 0,  1, 0, 0, 0, 1, 0,  0, 0, 1, 0, 0, 0,
      4, 0, 0, 0,  1, 0, 0, 0,  2, 0, 0, 0,
      0, 0, 0, 0,  0, 0, 0, 0,  0, 0, 0, 0,
      1, 0, 0, 0,  0, 0, 0, 0,  0, 0, 0, 0,
      0, 0, 0, 0,  1, 0, 0, 0,  0, 0, 0, 0,
      1, 0, 0, 0,  1, 0, 0, 0,  0, 0, 0, 0,
      0, 0, 0, 0,  0, 0, 0, 0,  255, 255, 255, 255,
      0, 0, 0, 0,  0, 0, 0, 0,  0, 0, 0, 0,
      5, 0, 0, 0,  6, 0, 0, 0]"

definition quad_header :: JoeHeader where
  "quad_header = \<lparr>magic = 7, version = 3, num_faces = 2, num_frames = 1\<rparr>"

definition quad_frame :: "real JoeFrame" where
  "quad_frame =
     \<lparr>num_verts = 4, num_texcoords = 1, num_normals = 2,
      faces = [\<lparr>vertexIndex = (0, 1, 2), normalIndex = (0, 1, 1), textureIndex = (0, 0, 0)\<rparr>,
               \<lparr>vertexIndex = (0, 3, 2), normalIndex = (1, 0, 1), textureIndex = (0, 1, 0)\<rparr>],
      verts = [(0, 0, 0), (1, 0, 0), (0, 1, 0), (1, 1, 0)],
      normals = [(0, 0, - 1), (0, 0, 0)],
      texcoords = [(5, 6)]\<rparr>"

definition quad_object :: "real JoeObject" where
  "quad_object = \<lparr>info = quad_header, frames = [quad_frame]\<rparr>"

definition quad_table :: "VertEntry list" where
  "quad_table =
     [\<lparr>original_index = 0, norm_index = 0, tex_index = 0\<rparr>,
      \<lparr>original_index = 1, norm_index = 1, tex_index = 0\<rparr>,
      \<lparr>original_index = 2, norm_index = 1, tex_index = 0\<rparr>,
      \<lparr>original_index = 3, norm_index = 0, tex_index = 1\<rparr>,
      \<lparr>original_index = 0, norm_index = 1, tex_index = 0\<rparr>]"

definition quad_mesh :: "real mesh" where
  "quad_mesh =
     \<lparr>m_faces = [0, 1, 2, 4, 3, 2],
      m_vertices = [0, 0, 0, 1, 0, 0, 0, 1, 0, 1, 1, 0, 0, 0, 0],
      m_normals = [0, 0, - 1, 0, 0, 0, 0, 0, 0, 0, 0, - 1, 0, 0, 0],
      m_texcoords = [5, 6, 5, 6, 5, 6, 0, 0, 5, 6]\<rparr>"

text \<open>A header alone: version 3, no faces and no frames.\<close>

definition no_frames_file :: "byte list" where
  "no_frames_file = [7, 0, 0, 0,  3, 0, 0, 0,  0, 0, 0, 0,  0, 0, 0, 0]"

text \<open>A header alone: version 3, one frame and the face count \<open>-1\<close>.\<close>

definition negative_faces_file :: "byte list" where
  "negative_faces_file = [7, 0, 0, 0,  3, 0, 0, 0,  255, 255, 255, 255,  1, 0, 0, 0]"

text \<open>Headers at the face limit and with other versions.\<close>

definition faces_32000_header :: "byte list" where
  "faces_32000_header = [7, 0, 0, 0,  3, 0, 0, 0,  0, 125, 0, 0,  1, 0, 0, 0]"

definition faces_32001_header :: "byte list" where
  "faces_32001_header = [7, 0, 0, 0,  3, 0, 0, 0,  1, 125, 0, 0,  1, 0, 0, 0]"

definition version_2_header :: "byte list" where
  "version_2_header = [7, 0, 0, 0,  2, 0, 0, 0,  2, 0, 0, 0,  1, 0, 0, 0]"

definition version_4_header :: "byte list" where
  "version_4_header = [7, 0, 0, 0,  4, 0, 0, 0,  2, 0, 0, 0,  1, 0, 0, 0]"

text \<open>One frame with a single triangle whose summed vertex normal lies in the plane of the
  triangle; every vertex is used with one normal and one texture coordinate.\<close>

definition tri_file :: "byte list" where
  "tri_file =
     [7, 0, 0, 0,  3, 0, 0, 0,  1, 0, 0, 0,  1, 0, 0, 0,
      0, 0, 1, 0, 2, 0,  0, 0, 1, 0, 1, 0,  0, 0, 0, 0, 0, 0,
      3, 0, 0, 0,  1, 0, 0, 0,  2, 0, 0, 0,
      0, 0, 0, 0,  0, 0, 0, 0,  0, 0, 0, 0,
      1, 0, 0, 0,  0, 0, 0, 0,  0, 0, 0, 0,
      0, 0, 0, 0,  1, 0, 0, 0,  0, 0, 0, 0,
      0, 0, 0, 0,  1, 0, 0, 0,  0, 0, 0, 0,
      0, 0, 0, 0,  0, 0, 0, 0,  0, 0, 0, 0,
      5, 0, 0, 0,  6, 0, 0, 0]"

definition tri_header :: JoeHeader where
  "tri_header = \<lparr>magic = 7, version = 3, num_faces = 1, num_frames = 1\<rparr>"

definition tri_frame :: "real JoeFrame" where
  "tri_frame =
     \<lparr>num_verts = 3, num_texcoords = 1, num_normals = 2,
      faces = [\<lparr>vertexIndex = (0, 1, 2), normalIndex = (0, 1, 1), textureIndex = (0, 0, 0)\<rparr>],
      verts = [(0, 0, 0), (1, 0, 0), (0, 1, 0)],
      normals = [(0, 1, 0), (0, 0, 0)],
      texcoords = [(5, 6)]\<rparr>"

definition tri_object :: "real JoeObject" where
  "tri_object = \<lparr>info = tri_header, frames = [tri_frame]\<rparr>"

definition tri_table :: "VertEntry list" where
  "tri_table =
     [\<lparr>original_index = 0, norm_index = 0, tex_index = 0\<rparr>,
      \<lparr>original_index = 1, norm_index = 1, tex_index = 0\<rparr>,
      \<lparr>original_index = 2, norm_index = 1, tex_index = 0\<rparr>]"

definition tri_mesh :: "real mesh" where
  "tri_mesh =
     \<lparr>m_faces = [0, 1, 2],
      m_vertices = [0, 0, 0, 1, 0, 0, 0, 1, 0],
      m_normals = [0, 0, 1, 0, 0, 0, 0, 0, 0],
      m_texcoords = [5, 6, 5, 6, 5, 6]\<rparr>"

text \<open>The same file with texture coordinate index \<open>-1\<close> at the first corner.\<close>

definition neg_tex_file :: "byte list" where
  "neg_tex_file =
     [7, 0, 0, 0,  3, 0, 0, 0,  1, 0, 0, 0,  1, 0, 0, 0,
      0, 0, 1, 0, 2, 0,  0, 0, 1, 0, 1, 0,  255, 255, 0, 0, 0, 0,
      3, 0, 0, 0,  1, 0, 0, 0,  2, 0, 0, 0,
      0, 0, 0, 0,  0, 0, 0, 0,  0, 0, 0, 0,
      1, 0, 0, 0,  0, 0, 0, 0,  0, 0, 0, 0,
      0, 0, 0, 0,  1, 0, 0, 0,  0, 0, 0, 0,
      0, 0, 0, 0,  1, 0, 0, 0,  0, 0, 0, 0,
      0, 0, 0, 0,  0, 0, 0, 0,  0, 0, 0, 0,
      5, 0, 0, 0,  6, 0, 0, 0]"

definition neg_tex_frame :: "real JoeFrame" where
  "neg_tex_frame =
     \<lparr>num_verts = 3, num_texcoords = 1, num_normals = 2,
      faces = [\<lparr>vertexIndex = (0, 1, 2), normalIndex = (0, 1, 1), textureIndex = (- 1, 0, 0)\<rparr>],
      verts = [(0, 0, 0), (1, 0, 0), (0, 1, 0)],
      normals = [(0, 1, 0), (0, 0, 0)],
      texcoords = [(5, 6)]\<rparr>"

definition neg_tex_object :: "real JoeObject" where
  "neg_tex_object = \<lparr>info = tri_header, frames = [neg_tex_frame]\<rparr>"

text \<open>One frame with three faces over the same three vertices; the second and the third
  face give vertex 0 the same normal, which is not the one of the first face.\<close>

definition dup_file :: "byte list" where
  "dup_file =
     [7, 0, 0, 0,  3, 0, 0, 0,  3, 0, 0, 0,  1, 0, 0, 0,
      0, 0, 1, 0, 2, 0,  0, 0, 0, 0, 0, 0,  0, 0, 0, 0, 0, 0,
      0, 0, 1, 0, 2, 0,  1, 0, 0, 0, 0, 0,  0, 0, 0, 0, 0, 0,
      0, 0, 1, 0, 2, 0,  1, 0, 0, 0, 0, 0,  0, 0, 0, 0, 0, 0,
      3, 0, 0, 0,  1, 0, 0, 0,  2, 0, 0, 0,
      0, 0, 0, 0,  0, 0, 0, 0,  0, 0, 0, 0,
      1, 0, 0, 0,  0, 0, 0, 0,  0, 0, 0, 0,
      0, 0, 0, 0,  1, 0, 0, 0,  0, 0, 0, 0,
      0, 0, 0, 0,  0, 0, 0, 0,  0, 0, 0, 0,
      0, 0, 0, 0,  0, 0, 0, 0,  255, 255, 255, 255,
      5, 0, 0, 0,  6, 0, 0, 0]"

definition dup_header :: JoeHeader where
  "dup_header = \<lparr>magic = 7, version = 3, num_faces = 3, num_frames = 1\<rparr>"

definition dup_frame :: "real JoeFrame" where
  "dup_frame =
     \<lparr>num_verts = 3, num_texcoords = 1, num_normals = 2,
      faces = [\<lparr>vertexIndex = (0, 1, 2), normalIndex = (0, 0, 0), textureIndex = (0, 0, 0)\<rparr>,
               \<lparr>vertexIndex = (0, 1, 2), normalIndex = (1, 0, 0), textureIndex = (0, 0, 0)\<rparr>,
               \<lparr>vertexIndex = (0, 1, 2), normalIndex = (1, 0, 0), textureIndex = (0, 0, 0)\<rparr>],
      verts = [(0, 0, 0), (1, 0, 0), (0, 1, 0)],
      normals = [(0, 0, 0), (0, 0, - 1)],
      texcoords = [(5, 6)]\<rparr>"

definition dup_object :: "real JoeObject" where
  "dup_object = \<lparr>info = dup_header, frames = [dup_frame]\<rparr>"

definition dup_table :: "VertEntry list" where
  "dup_table =
     [\<lparr>original_index = 0, norm_index = 0, tex_index = 0\<rparr>,
      \<lparr>original_index = 1, norm_index = 0, tex_index = 0\<rparr>,
      \<lparr>original_index = 2, norm_index = 0, tex_index = 0\<rparr>,
      \<lparr>original_index = 0, norm_index = 1, tex_index = 0\<rparr>,
      \<lparr>original_index = 0, norm_index = 1, tex_index = 0\<rparr>]"

text \<open>A file with no face and one frame of 5592407 vertices, every coordinate stored as
  four zero bytes.  No vertex is used by a face, so every table slot stays empty.\<close>

definition wide_header :: JoeHeader where
  "wide_header = \<lparr>magic = 0, version = 3, num_faces = 0, num_frames = 1\<rparr>"

definition wide_file :: "byte list" where
  "wide_file =
     [0, 0, 0, 0,  3, 0, 0, 0,  0, 0, 0, 0,  1, 0, 0, 0,
      87, 85, 85, 0,  0, 0, 0, 0,  0, 0, 0, 0]
     @ replicate (12 * 5592407) 0"

definition wide_frame :: "'f float_ops \<Rightarrow> 'f JoeFrame" where
  "wide_frame ops =
     \<lparr>num_verts = 5592407, num_texcoords = 0, num_normals = 0, faces = [],
      verts = replicate 5592407 (JoeVertex_of_bytes ops (replicate 12 0)),
      normals = [], texcoords = []\<rparr>"

definition wide_mesh :: "real mesh" where
  "wide_mesh =
     \<lparr>m_faces = [], m_vertices = replicate 16777220 0, m_normals = replicate 16777220 0,
      m_texcoords = replicate 11184814 0\<rparr>"

definition wide_object :: "'f float_ops \<Rightarrow> 'f JoeObject" where
  "wide_object ops = \<lparr>info = wide_header, frames = [scaled_frame ops (wide_frame ops)]\<rparr>"

section \<open>Lemmas\<close>

subsection \<open>Results and loops\<close>

lemma ebind_eq_Inr: "ebind m k = Inr y \<longleftrightarrow> (\<exists>x. m = Inr x \<and> k x = Inr y)"
  by (cases m) auto

lemma efold_append: "efold body (xs @ ys) s = ebind (efold body xs s) (efold body ys)"
proof (induction xs arbitrary: s)
  case Nil
  show ?case by simp
next
  case (Cons x xs)
  show ?case by (cases "body x s") (simp_all add: Cons.IH)
qed

text \<open>An invariant that may mention the part of the list already processed.\<close>

lemma efold_prefix_invariant:
  assumes run: "efold body xs s = Inr s'"
    and init: "P [] s"
    and step: "\<And>ys x zs t t'. xs = ys @ x # zs \<Longrightarrow> P ys t \<Longrightarrow> body x t = Inr t' \<Longrightarrow> P (ys @ [x]) t'"
  shows "P xs s'"
proof -
  have "\<And>ys s. P ys s \<Longrightarrow> efold body zs s = Inr s' \<Longrightarrow> xs = ys @ zs \<Longrightarrow> P xs s'" for zs
  proof (induction zs)
    case Nil
    then show ?case by simp
  next
    case (Cons z zs)
    from Cons.prems(2) obtain t where t: "body z s = Inr t" and rest: "efold body zs t = Inr s'"
      by (auto simp: ebind_eq_Inr)
    have "P (ys @ [z]) t"
      using step [OF Cons.prems(3) Cons.prems(1) t] .
    from Cons.IH [OF this rest] Cons.prems(3) show ?case by simp
  qed
  from this [OF init run] show ?thesis by simp
qed

lemma efold_invariant:
  assumes run: "efold body xs s = Inr s'"
    and init: "P s"
    and step: "\<And>x t t'. x \<in> set xs \<Longrightarrow> P t \<Longrightarrow> body x t = Inr t' \<Longrightarrow> P t'"
  shows "P s'"
  using run init step
proof (induction xs arbitrary: s)
  case Nil
  then show ?case by simp
next
  case (Cons x xs)
  from Cons.prems(1) obtain t where t: "body x s = Inr t" and rest: "efold body xs t = Inr s'"
    by (auto simp: ebind_eq_Inr)
  have "P t" using Cons.prems(3) [of x s t] Cons.prems(2) t by simp
  show ?case
    by (rule Cons.IH [OF rest \<open>P t\<close>]) (use Cons.prems(3) in auto)
qed

lemma efold_succeeds:
  assumes init: "P s"
    and step: "\<And>x t. x \<in> set xs \<Longrightarrow> P t \<Longrightarrow> \<exists>t'. body x t = Inr t' \<and> P t'"
  shows "\<exists>s'. efold body xs s = Inr s' \<and> P s'"
  using init step
proof (induction xs arbitrary: s)
  case Nil
  then show ?case by simp
next
  case (Cons x xs)
  from Cons.prems(2) [of x s] Cons.prems(1) obtain t where t: "body x s = Inr t" "P t"
    by auto
  have "\<exists>s'. efold body xs t = Inr s' \<and> P s'"
    by (rule Cons.IH [OF t(2)]) (use Cons.prems(2) in auto)
  with t show ?case by simp
qed

subsection \<open>Vectors\<close>

lemma vector_at_eq_Inr: "vector_at xs i = Inr x \<longleftrightarrow> 0 \<le> i \<and> i < int (length xs) \<and> x = xs ! nat i"
  by (auto simp: vector_at_def)

lemma vector_store_eq_Inr: "vector_store xs k x = Inr ys \<longleftrightarrow> k < length xs \<and> ys = xs[k := x]"
  by (auto simp: vector_store_def)

lemma vector_size_eq_Inr: "vector_size n = Inr k \<longleftrightarrow> 0 \<le> n \<and> k = nat n"
  by (auto simp: vector_size_def)

lemma update_map_step:
  assumes "n < length xs"
  shows "(map g (take n xs) @ drop n xs)[n := g (xs ! n)] = map g (take (Suc n) xs) @ drop (Suc n) xs"
proof -
  have "drop n xs = xs ! n # drop (Suc n) xs"
    using assms by (simp add: Cons_nth_drop_Suc)
  then show ?thesis
    using assms by (simp add: list_update_append take_Suc_conv_app_nth)
qed

lemma update_each_prefix:
  assumes "\<And>x. x \<in> set xs \<Longrightarrow> f x = Inr (g x)"
  shows "n \<le> length xs \<Longrightarrow> update_each n f xs = Inr (map g (take n xs) @ drop n xs)"
proof (induction n)
  case 0
  show ?case by (simp add: update_each_def)
next
  case (Suc n)
  define body where
    "body = (\<lambda>i ys. ebind (vector_at ys (int i)) (\<lambda>y. ebind (f y) (\<lambda>y'. vector_store ys i y')))"
  define ys where "ys = map g (take n xs) @ drop n xs"
  from Suc have n: "n < length xs" by simp
  have prev: "efold body [0..<n] xs = Inr ys"
    using Suc by (simp add: update_each_def body_def ys_def)
  have at: "vector_at ys (int n) = Inr (xs ! n)"
    using n by (simp add: vector_at_def ys_def nth_append)
  have fx: "f (xs ! n) = Inr (g (xs ! n))"
    using assms n by simp
  have st: "vector_store ys n (g (xs ! n)) = Inr (map g (take (Suc n) xs) @ drop (Suc n) xs)"
    using n update_map_step [OF n, of g] by (simp add: vector_store_def ys_def)
  have "body n ys = Inr (map g (take (Suc n) xs) @ drop (Suc n) xs)"
    by (simp add: body_def at fx st)
  then have "efold body [0..<Suc n] xs = Inr (map g (take (Suc n) xs) @ drop (Suc n) xs)"
    by (simp add: efold_append prev)
  then show ?case by (simp add: update_each_def body_def)
qed

lemma update_each_map:
  assumes "\<And>x. x \<in> set xs \<Longrightarrow> f x = Inr (g x)" and "n = length xs"
  shows "update_each n f xs = Inr (map g xs)"
  using update_each_prefix [of xs f g n] assms by simp

subsection \<open>Decoded frames have the sizes of their counts\<close>

lemma length_records: "length (records sz n bs) = n"
  by (induction n arbitrary: bs) simp_all

lemma BinaryRead_eq_Inr:
  "BinaryRead sz count f = Inr (buf, f') \<longleftrightarrow>
     sz * count \<le> length f \<and> buf = take (sz * count) f \<and> f' = drop (sz * count) f"
  by (auto simp: BinaryRead_def)

lemma read_frame_sized:
  assumes "read_frame ops nfaces f = Inr (fr, f')"
  shows "frame_sized nfaces fr"
  using assms unfolding read_frame_def
  by (auto simp: ebind_eq_Inr vector_size_eq_Inr frame_sized_def length_records)

lemma read_frames_sized:
  "read_frames ops nfaces k f = Inr (frs, f') \<Longrightarrow> length frs = k \<and> list_all (frame_sized nfaces) frs"
proof (induction k arbitrary: f frs f')
  case 0
  then show ?case by simp
next
  case (Suc k)
  from Suc.prems obtain fr f1 frs' where
    fr: "read_frame ops nfaces f = Inr (fr, f1)" and
    rest: "read_frames ops nfaces k f1 = Inr (frs', f')" and
    frs: "frs = fr # frs'"
    by (auto simp: ebind_eq_Inr)
  from Suc.IH [OF rest] read_frame_sized [OF fr] frs show ?case by simp
qed

lemma ReadData_frames_sized:
  assumes "ReadData_frames ops hdr f = Inr (obj, f')"
  shows "object_sized obj" and "info obj = hdr"
proof -
  from assms obtain frs where
    n: "0 \<le> num_frames hdr" and
    frs: "read_frames ops (num_faces hdr) (nat (num_frames hdr)) f = Inr (frs, f')" and
    obj: "obj = \<lparr>info = hdr, frames = frs\<rparr>"
    by (auto simp: ReadData_frames_def ebind_eq_Inr vector_size_eq_Inr)
  from read_frames_sized [OF frs] n obj show "object_sized obj"
    by (simp add: object_sized_def)
  from obj show "info obj = hdr" by simp
qed

subsection \<open>Scaling and correcting in closed form\<close>

lemma scale_frame_sized:
  assumes "frame_sized nfaces fr"
  shows "scale_frame ops fr = Inr (scaled_frame ops fr)"
proof -
  have "update_each (nat (num_verts fr)) (\<lambda>p. Inr (vec_scale ops p)) (verts fr)
          = Inr (map (vec_scale ops) (verts fr))"
    by (rule update_each_map) (use assms in \<open>simp_all add: frame_sized_def\<close>)
  then show ?thesis by (simp add: scale_frame_def scaled_frame_def)
qed

lemma ReadData_scale_sized:
  assumes "object_sized obj"
  shows "ReadData_scale ops obj = Inr (obj\<lparr>frames := map (scaled_frame ops) (frames obj)\<rparr>)"
proof -
  have "update_each (nat (num_frames (info obj))) (scale_frame ops) (frames obj)
          = Inr (map (scaled_frame ops) (frames obj))"
  proof (rule update_each_map)
    fix fr assume "fr \<in> set (frames obj)"
    with assms have "frame_sized (num_faces (info obj)) fr"
      by (simp add: object_sized_def list_all_iff)
    then show "scale_frame ops fr = Inr (scaled_frame ops fr)"
      by (rule scale_frame_sized)
  next
    from assms show "nat (num_frames (info obj)) = length (frames obj)"
      by (simp add: object_sized_def)
  qed
  then show ?thesis by (simp add: ReadData_scale_def)
qed

lemma correct_normal_eq: "correct_normal (x, y, z) = (x, - z, y)"
  by (simp add: correct_normal_def negate_y_def swap_yz_def)

lemma correct_frame_sized:
  assumes "frame_sized nfaces fr"
  shows "correct_frame fr = Inr (corrected_frame fr)"
proof -
  have "update_each (nat (num_normals fr)) (\<lambda>n. Inr (correct_normal n)) (normals fr)
          = Inr (map correct_normal (normals fr))"
    by (rule update_each_map) (use assms in \<open>simp_all add: frame_sized_def\<close>)
  then show ?thesis by (simp add: correct_frame_def corrected_frame_def)
qed

lemma correct_frames_sized:
  assumes "object_sized obj"
  shows "update_each (nat (num_frames (info obj))) correct_frame (frames obj)
           = Inr (map corrected_frame (frames obj))"
proof (rule update_each_map)
  fix fr assume "fr \<in> set (frames obj)"
  with assms have "frame_sized (num_faces (info obj)) fr"
    by (simp add: object_sized_def list_all_iff)
  then show "correct_frame fr = Inr (corrected_frame fr)"
    by (rule correct_frame_sized)
next
  from assms show "nat (num_frames (info obj)) = length (frames obj)"
    by (simp add: object_sized_def)
qed

lemma ReadData_correct_sized:
  assumes "object_sized obj" and "NeedsNormalSwap ops obj = Inr need"
  shows "ReadData_correct ops obj =
           Inr (if need then obj\<lparr>frames := map corrected_frame (frames obj)\<rparr> else obj)"
  using assms by (simp add: ReadData_correct_def correct_frames_sized)

lemma frame_sized_scaled [simp]: "frame_sized nfaces (scaled_frame ops fr) = frame_sized nfaces fr"
  by (simp add: frame_sized_def scaled_frame_def)

lemma frame_sized_corrected [simp]: "frame_sized nfaces (corrected_frame fr) = frame_sized nfaces fr"
  by (simp add: frame_sized_def corrected_frame_def)

lemma frame_in_range_scaled [simp]: "frame_in_range (scaled_frame ops fr) = frame_in_range fr"
  by (simp add: frame_in_range_def corner_in_range_def [abs_def] scaled_frame_def)

lemma frame_in_range_corrected [simp]: "frame_in_range (corrected_frame fr) = frame_in_range fr"
  by (simp add: frame_in_range_def corner_in_range_def [abs_def] corrected_frame_def)

lemma texture_nonneg_scaled [simp]: "texture_nonneg (scaled_frame ops fr) = texture_nonneg fr"
  by (simp add: texture_nonneg_def scaled_frame_def)

lemma texture_nonneg_corrected [simp]: "texture_nonneg (corrected_frame fr) = texture_nonneg fr"
  by (simp add: texture_nonneg_def corrected_frame_def)

lemma object_sized_map:
  assumes "\<And>fr nf. frame_sized nf (g fr) = frame_sized nf fr"
  shows "object_sized (obj\<lparr>frames := map g (frames obj)\<rparr>) = object_sized obj"
  by (simp add: object_sized_def list_all_iff assms)

lemma indices_in_range_map:
  assumes "\<And>fr. frame_in_range (g fr) = frame_in_range fr"
    and "\<And>fr. texture_nonneg (g fr) = texture_nonneg fr"
  shows "indices_in_range (obj\<lparr>frames := map g (frames obj)\<rparr>) = indices_in_range obj"
  by (cases "frames obj") (simp_all add: indices_in_range_def list_all_iff assms)

subsection \<open>When NeedsNormalSwap returns\<close>

lemma efold_Inr_each:
  assumes "efold body xs s = Inr s'" and "x \<in> set xs"
  shows "\<exists>t t'. body x t = Inr t'"
  using assms
proof (induction xs arbitrary: s)
  case Nil
  then show ?case by simp
next
  case (Cons y ys)
  from Cons.prems(1) obtain t where t: "body y s = Inr t" and rest: "efold body ys t = Inr s'"
    by (auto simp: ebind_eq_Inr)
  show ?case
  proof (cases "x = y")
    case True
    with t show ?thesis by blast
  next
    case False
    with Cons.prems(2) have "x \<in> set ys" by simp
    from Cons.IH [OF rest this] show ?thesis .
  qed
qed

lemma efold_total:
  assumes "\<And>x t. x \<in> set xs \<Longrightarrow> \<exists>t'. body x t = Inr t'"
  shows "\<exists>s'. efold body xs s = Inr s'"
  using efold_succeeds [where P = "\<lambda>t. True" and body = body and xs = xs and s = s] assms
  by simp

lemma gather_corner_succeeds_iff:
  assumes "frame_sized nfaces fr"
  shows "(\<exists>r. gather_corner fr face v = Inr r) \<longleftrightarrow> corner_in_range fr face v"
  using assms
  by (auto simp: gather_corner_def corner_in_range_def frame_sized_def ebind_eq_Inr
      vector_at_eq_Inr simp del: split_paired_Ex)

lemma face_flip_vote_succeeds_iff:
  assumes "frame_sized nfaces fr"
  shows "(\<exists>b. face_flip_vote ops fr face = Inr b) \<longleftrightarrow> list_all (corner_in_range fr face) [0..<3]"
proof -
  have three: "[0..<3] = [0, 1, 2]"
    by (simp add: upt_rec)
  have "(\<exists>b. face_flip_vote ops fr face = Inr b) \<longleftrightarrow>
          (\<exists>r. gather_corner fr face 0 = Inr r) \<and> (\<exists>r. gather_corner fr face 1 = Inr r) \<and>
          (\<exists>r. gather_corner fr face 2 = Inr r)"
    by (auto simp: face_flip_vote_def ebind_eq_Inr)
  then show ?thesis
    by (simp add: gather_corner_succeeds_iff [OF assms] three del: split_paired_Ex)
qed

lemma normal_flip_count_succeeds_iff:
  assumes "frame_sized nfaces fr"
  shows "(\<exists>c. normal_flip_count ops nfaces fr = Inr c) \<longleftrightarrow> frame_in_range fr"
proof
  assume "\<exists>c. normal_flip_count ops nfaces fr = Inr c"
  then obtain c where c: "normal_flip_count ops nfaces fr = Inr c" ..
  have "list_all (corner_in_range fr face) [0..<3]" if "face \<in> set (faces fr)" for face
  proof -
    from that obtain i where i: "i < length (faces fr)" "face = faces fr ! i"
      by (auto simp: in_set_conv_nth)
    with assms have "i \<in> set [0..<nat nfaces]"
      by (simp add: frame_sized_def)
    from efold_Inr_each [OF c [unfolded normal_flip_count_def] this]
    obtain b where "face_flip_vote ops fr face = Inr b"
      using i by (auto simp: ebind_eq_Inr vector_at_eq_Inr)
    then show ?thesis
      using face_flip_vote_succeeds_iff [OF assms] by blast
  qed
  then show "frame_in_range fr"
    by (simp add: frame_in_range_def list_all_iff)
next
  assume r: "frame_in_range fr"
  have "\<exists>c. efold (\<lambda>i c. ebind (vector_at (faces fr) (int i)) (\<lambda>face.
                   ebind (face_flip_vote ops fr face) (\<lambda>b.
                     Inr (if b then c + 1 else c))))
       [0..<nat nfaces] (0::int) = Inr c"
  proof (rule efold_total)
    fix i and t :: int
    assume "i \<in> set [0..<nat nfaces]"
    with assms have i: "i < length (faces fr)"
      by (simp add: frame_sized_def)
    then have "faces fr ! i \<in> set (faces fr)" by simp
    with r have "list_all (corner_in_range fr (faces fr ! i)) [0..<3]"
      unfolding frame_in_range_def list_all_iff by blast
    then obtain b where "face_flip_vote ops fr (faces fr ! i) = Inr b"
      using face_flip_vote_succeeds_iff [OF assms] by blast
    with i show "\<exists>t'. ebind (vector_at (faces fr) (int i)) (\<lambda>face.
                   ebind (face_flip_vote ops fr face) (\<lambda>b.
                     Inr (if b then t + 1 else t))) = Inr t'"
      by (simp add: vector_at_def)
  qed
  then show "\<exists>c. normal_flip_count ops nfaces fr = Inr c"
    by (simp add: normal_flip_count_def)
qed

lemma NeedsNormalSwap_succeeds_iff:
  assumes "object_sized obj"
  shows "(\<exists>need. NeedsNormalSwap ops obj = Inr need) \<longleftrightarrow> list_all frame_in_range (frames obj)"
proof
  assume "\<exists>need. NeedsNormalSwap ops obj = Inr need"
  then obtain need where run: "NeedsNormalSwap ops obj = Inr need" ..
  have "frame_in_range fr" if "fr \<in> set (frames obj)" for fr
  proof -
    from that obtain i where i: "i < length (frames obj)" "fr = frames obj ! i"
      by (auto simp: in_set_conv_nth)
    with assms have "i \<in> set [0..<nat (num_frames (info obj))]"
      by (simp add: object_sized_def)
    from efold_Inr_each [OF run [unfolded NeedsNormalSwap_def] this]
    obtain c where "normal_flip_count ops (num_faces (info obj)) fr = Inr c"
      using i by (auto simp: ebind_eq_Inr vector_at_eq_Inr)
    moreover from assms that have "frame_sized (num_faces (info obj)) fr"
      by (simp add: object_sized_def list_all_iff)
    ultimately show ?thesis
      using normal_flip_count_succeeds_iff by blast
  qed
  then show "list_all frame_in_range (frames obj)"
    by (simp add: list_all_iff)
next
  assume r: "list_all frame_in_range (frames obj)"
  have "\<exists>need. efold (\<lambda>f need_normal_flip.
              ebind (vector_at (frames obj) (int f)) (\<lambda>fr.
              ebind (normal_flip_count ops (num_faces (info obj)) fr) (\<lambda>c.
                Inr (if c > c_div (num_faces (info obj)) 4 then True else need_normal_flip))))
       [0..<nat (num_frames (info obj))] False = Inr need"
  proof (rule efold_total)
    fix i and t :: bool
    assume "i \<in> set [0..<nat (num_frames (info obj))]"
    with assms have i: "i < length (frames obj)"
      by (simp add: object_sized_def)
    then have mem: "frames obj ! i \<in> set (frames obj)" by simp
    with r have "frame_in_range (frames obj ! i)"
      unfolding list_all_iff by blast
    moreover from assms mem have "frame_sized (num_faces (info obj)) (frames obj ! i)"
      by (simp add: object_sized_def list_all_iff)
    ultimately obtain c where "normal_flip_count ops (num_faces (info obj)) (frames obj ! i) = Inr c"
      using normal_flip_count_succeeds_iff by blast
    with i show "\<exists>t'. ebind (vector_at (frames obj) (int i)) (\<lambda>fr.
              ebind (normal_flip_count ops (num_faces (info obj)) fr) (\<lambda>c.
                Inr (if c > c_div (num_faces (info obj)) 4 then True else t))) = Inr t'"
      by (simp add: vector_at_def)
  qed
  then show "\<exists>need. NeedsNormalSwap ops obj = Inr need"
    by (simp add: NeedsNormalSwap_def)
qed

subsection \<open>The welding loop\<close>

text \<open>The three ways in which one corner changes the table and the index array.\<close>

lemma weld_corner_Inr:
  assumes "weld_corner fr (i, v) (vm, vf) = Inr (vm', vf')"
    and "corner fr (i, v) = (vi, ni, ti)"
  shows "i < length (faces fr) \<and> 0 \<le> vi \<and> vi < int (length vm) \<and> i * 3 + v < length vf \<and> 0 \<le> ti \<and>
     (\<not> populated (vm ! nat vi) \<and> vm' = vm[nat vi := entry_of (vi, ni, ti)] \<and> vf' = vf[i * 3 + v := vi]
      \<or> populated (vm ! nat vi) \<and> norm_index (vm ! nat vi) = ni \<and> tex_index (vm ! nat vi) = ti \<and>
         vm' = vm \<and> vf' = vf[i * 3 + v := vi]
      \<or> populated (vm ! nat vi) \<and> (norm_index (vm ! nat vi), tex_index (vm ! nat vi)) \<noteq> (ni, ti) \<and>
         vm' = vm @ [entry_of (vi, ni, ti)] \<and> vf' = vf[i * 3 + v := int (length vm)])"
  using assms
  by (auto simp: weld_corner_def corner_def entry_of_def populated_def Let_def ebind_eq_Inr
      vector_at_eq_Inr vector_store_eq_Inr split: if_splits)

lemma set_corners: "set (List.product [0..<n] [0..<3]) = {(i, v). i < n \<and> v < 3}"
  by auto

lemma weld_loop_indices:
  assumes run: "efold (weld_corner fr) cs (vm0, vf0) = Inr (vm, vf)"
  shows "length vf = length vf0 \<and> length vm0 \<le> length vm \<and> length vm \<le> length vm0 + length cs \<and>
         (\<forall>(i, v) \<in> set cs. i * 3 + v < length vf \<and> 0 \<le> vf ! (i * 3 + v) \<and>
                              vf ! (i * 3 + v) < int (length vm))"
proof -
  define P where "P = (\<lambda>ys (st :: VertEntry list \<times> int list).
     length (snd st) = length vf0 \<and> length vm0 \<le> length (fst st) \<and>
     length (fst st) \<le> length vm0 + length ys \<and>
     (\<forall>(i, v) \<in> set ys. i * 3 + v < length (snd st) \<and> 0 \<le> snd st ! (i * 3 + v) \<and>
                          snd st ! (i * 3 + v) < int (length (fst st))))"
  have "P cs (vm, vf)"
  proof (rule efold_prefix_invariant [OF run])
    show "P [] (vm0, vf0)" by (simp add: P_def)
  next
    fix ys x zs t t'
    assume inv: "P ys t" and step: "weld_corner fr x t = Inr t'"
    obtain i v where x: "x = (i, v)" by (cases x)
    obtain a f where t: "t = (a, f)" by (cases t)
    obtain a' f' where t': "t' = (a', f')" by (cases t')
    obtain vi ni ti where c: "corner fr (i, v) = (vi, ni, ti)" by (cases "corner fr (i, v)")
    from weld_corner_Inr [OF step [unfolded x t t'] c]
    have k: "i * 3 + v < length f" and vi: "0 \<le> vi" "vi < int (length a)"
      and cases: "(a' = a[nat vi := entry_of (vi, ni, ti)] \<and> f' = f[i * 3 + v := vi])
        \<or> (a' = a \<and> f' = f[i * 3 + v := vi])
        \<or> (a' = a @ [entry_of (vi, ni, ti)] \<and> f' = f[i * 3 + v := int (length a)])"
      by auto
    from cases obtain w where f': "f' = f[i * 3 + v := w]" and w: "0 \<le> w" "w < int (length a')"
      and grow: "length a \<le> length a'" "length a' \<le> Suc (length a)"
      using vi by auto
    have "j * 3 + u < length f' \<and> 0 \<le> f' ! (j * 3 + u) \<and> f' ! (j * 3 + u) < int (length a')"
      if "(j, u) \<in> set (ys @ [x])" for j u
    proof (cases "j * 3 + u = i * 3 + v")
      case True
      with k w f' show ?thesis by simp
    next
      case False
      with that x have "(j, u) \<in> set ys"
        by auto
      with inv t have "j * 3 + u < length f \<and> 0 \<le> f ! (j * 3 + u) \<and> f ! (j * 3 + u) < int (length a)"
        by (auto simp: P_def)
      with False f' grow show ?thesis by simp
    qed
    moreover from inv t f' grow have "length f' = length vf0 \<and> length vm0 \<le> length a' \<and>
        length a' \<le> length vm0 + length (ys @ [x])"
      by (simp add: P_def)
    ultimately show "P (ys @ [x]) t'"
      unfolding P_def t' by auto
  qed
  then show ?thesis by (auto simp: P_def)
qed

lemma weld_loop_entries:
  assumes run: "efold (weld_corner fr) cs (vm0, vf0) = Inr (vm, vf)"
    and e: "e \<in> set vm"
  shows "e \<in> set vm0 \<or>
         (\<exists>c \<in> set cs. e = entry_of (corner fr c) \<and> 0 \<le> original_index e \<and> 0 \<le> tex_index e)"
proof -
  define P where "P = (\<lambda>st :: VertEntry list \<times> int list.
     \<forall>e \<in> set (fst st). e \<in> set vm0 \<or>
       (\<exists>c \<in> set cs. e = entry_of (corner fr c) \<and> 0 \<le> original_index e \<and> 0 \<le> tex_index e))"
  have "P (vm, vf)"
  proof (rule efold_invariant [OF run])
    show "P (vm0, vf0)" by (simp add: P_def)
  next
    fix x t t'
    assume mem: "x \<in> set cs" and inv: "P t" and step: "weld_corner fr x t = Inr t'"
    obtain i v where x: "x = (i, v)" by (cases x)
    obtain a f where t: "t = (a, f)" by (cases t)
    obtain a' f' where t': "t' = (a', f')" by (cases t')
    obtain vi ni ti where c: "corner fr (i, v) = (vi, ni, ti)" by (cases "corner fr (i, v)")
    from weld_corner_Inr [OF step [unfolded x t t'] c]
    have vi: "0 \<le> vi" and ti: "0 \<le> ti"
      and cases: "a' = a[nat vi := entry_of (vi, ni, ti)] \<or> a' = a \<or> a' = a @ [entry_of (vi, ni, ti)]"
      by auto
    have new: "\<exists>c \<in> set cs. entry_of (vi, ni, ti) = entry_of (corner fr c) \<and>
        0 \<le> original_index (entry_of (vi, ni, ti)) \<and> 0 \<le> tex_index (entry_of (vi, ni, ti))"
      using mem x c vi ti by (auto simp: entry_of_def intro!: bexI [of _ "(i, v)"])
    have "set a' \<subseteq> insert (entry_of (vi, ni, ti)) (set a)"
      using cases set_update_subset_insert [of a "nat vi" "entry_of (vi, ni, ti)"] by auto
    with inv t new show "P t'"
      unfolding P_def t' by auto
  qed
  with e show ?thesis by (simp add: P_def)
qed

lemma div_mod_corner: "k < 3 * n \<Longrightarrow> (k div 3, k mod 3) \<in> set (List.product [0..<n] [0..<3])"
  by auto

lemma ReadData_weld_Inr:
  assumes "ReadData_weld obj = Inr (vm, vf)"
  obtains fr frs where "frames obj = fr # frs" and "0 \<le> num_verts fr" and "0 \<le> num_faces (info obj)"
    and "efold (weld_corner fr) (List.product [0..<nat (num_faces (info obj))] [0..<3])
           (replicate (nat (num_verts fr)) empty_VertEntry, replicate (nat (num_faces (info obj) * 3)) 0)
         = Inr (vm, vf)"
proof -
  from assms obtain fr where fr: "vector_at (frames obj) 0 = Inr fr"
    and nv: "0 \<le> num_verts fr" and nf: "0 \<le> num_faces (info obj) * 3"
    and run: "efold (weld_corner fr) (List.product [0..<nat (num_faces (info obj))] [0..<3])
           (replicate (nat (num_verts fr)) empty_VertEntry, replicate (nat (num_faces (info obj) * 3)) 0)
         = Inr (vm, vf)"
    by (auto simp: ReadData_weld_def ebind_eq_Inr vector_size_eq_Inr int_mul_def split: if_splits)
  from fr obtain frs where "frames obj = fr # frs"
    by (cases "frames obj") (auto simp: vector_at_def)
  moreover from nf have "0 \<le> num_faces (info obj)" by simp
  ultimately show ?thesis using that nv run by blast
qed

lemma ReadData_weld_indices:
  assumes "ReadData_weld obj = Inr (vm, vf)"
  shows "int (length vf) = 3 * num_faces (info obj)"
    and "\<forall>x \<in> set vf. 0 \<le> x \<and> x < int (length vm)"
proof -
  from assms obtain fr frs where "frames obj = fr # frs" and "0 \<le> num_verts fr"
    and nf: "0 \<le> num_faces (info obj)"
    and run: "efold (weld_corner fr) (List.product [0..<nat (num_faces (info obj))] [0..<3])
           (replicate (nat (num_verts fr)) empty_VertEntry, replicate (nat (num_faces (info obj) * 3)) 0)
         = Inr (vm, vf)"
    by (rule ReadData_weld_Inr)
  note inv = weld_loop_indices [OF run]
  from inv nf show len: "int (length vf) = 3 * num_faces (info obj)" by simp
  show "\<forall>x \<in> set vf. 0 \<le> x \<and> x < int (length vm)"
  proof
    fix x assume "x \<in> set vf"
    then obtain k where k: "k < length vf" "x = vf ! k"
      by (auto simp: in_set_conv_nth)
    from k len nf have "k < 3 * nat (num_faces (info obj))" by simp
    then have "(k div 3, k mod 3) \<in> set (List.product [0..<nat (num_faces (info obj))] [0..<3])"
      by (rule div_mod_corner)
    with inv have "0 \<le> vf ! (k div 3 * 3 + k mod 3) \<and> vf ! (k div 3 * 3 + k mod 3) < int (length vm)"
      by blast
    with k show "0 \<le> x \<and> x < int (length vm)" by simp
  qed
qed

subsection \<open>When the welding loop succeeds\<close>

lemma corner_facts:
  assumes "frame_sized nfaces fr" and "frame_in_range fr" and "i < nat nfaces" and "v < 3"
    and "corner fr (i, v) = (vi, ni, ti)"
  shows "0 \<le> vi \<and> vi < num_verts fr \<and> 0 \<le> ni \<and> ni < num_normals fr"
proof -
  from assms have "faces fr ! i \<in> set (faces fr)"
    by (simp add: frame_sized_def)
  with assms(2) have "list_all (corner_in_range fr (faces fr ! i)) [0..<3]"
    unfolding frame_in_range_def list_all_iff by blast
  with \<open>v < 3\<close> have "corner_in_range fr (faces fr ! i) v"
    by (simp add: list_all_iff)
  with assms(5) show ?thesis
    by (simp add: corner_in_range_def corner_def)
qed

lemma corner_texture:
  assumes "frame_sized nfaces fr" and "texture_nonneg fr" and "i < nat nfaces" and "v < 3"
    and "corner fr (i, v) = (vi, ni, ti)"
  shows "0 \<le> ti"
proof -
  from assms have "faces fr ! i \<in> set (faces fr)"
    by (simp add: frame_sized_def)
  with assms(2) have "list_all (\<lambda>v. 0 \<le> at3 (textureIndex (faces fr ! i)) v) [0..<3]"
    unfolding texture_nonneg_def list_all_iff by blast
  with \<open>v < 3\<close> have "0 \<le> at3 (textureIndex (faces fr ! i)) v"
    by (simp add: list_all_iff)
  with assms(5) show ?thesis
    by (simp add: corner_def)
qed

lemma weld_corner_succeeds:
  assumes c: "corner fr (i, v) = (vi, ni, ti)"
    and "i < length (faces fr)" and "0 \<le> vi" and "vi < int (length vm)" and "0 \<le> ti"
    and "i * 3 + v < length vf"
  shows "\<exists>vm' vf'. weld_corner fr (i, v) (vm, vf) = Inr (vm', vf')"
  using assms
  by (auto simp: weld_corner_def corner_def Let_def vector_at_def vector_store_def)

lemma weld_loop_succeeds:
  assumes sized: "frame_sized nfaces fr" and range: "frame_in_range fr" and tex: "texture_nonneg fr"
  shows "\<exists>vm vf. efold (weld_corner fr) (List.product [0..<nat nfaces] [0..<3])
           (replicate (nat (num_verts fr)) empty_VertEntry, replicate (nat (nfaces * 3)) 0)
         = Inr (vm, vf)"
proof -
  define P where "P = (\<lambda>st :: VertEntry list \<times> int list.
     nat (num_verts fr) \<le> length (fst st) \<and> length (snd st) = nat (nfaces * 3))"
  have "\<exists>s'. efold (weld_corner fr) (List.product [0..<nat nfaces] [0..<3])
           (replicate (nat (num_verts fr)) empty_VertEntry, replicate (nat (nfaces * 3)) 0)
         = Inr s' \<and> P s'"
  proof (rule efold_succeeds)
    show "P (replicate (nat (num_verts fr)) empty_VertEntry, replicate (nat (nfaces * 3)) 0)"
      by (simp add: P_def)
  next
    fix x t
    assume mem: "x \<in> set (List.product [0..<nat nfaces] [0..<3])" and inv: "P t"
    obtain i v where x: "x = (i, v)" by (cases x)
    obtain a f where t: "t = (a, f)" by (cases t)
    obtain vi ni ti where c: "corner fr (i, v) = (vi, ni, ti)" by (cases "corner fr (i, v)")
    from mem x have iv: "i < nat nfaces" "v < 3" by auto
    from corner_facts [OF sized range iv c] have vi: "0 \<le> vi" "vi < num_verts fr" by auto
    from corner_texture [OF sized tex iv c] have ti: "0 \<le> ti" .
    from inv t vi have "vi < int (length a)" by (auto simp: P_def)
    moreover from iv sized have "i < length (faces fr)" by (simp add: frame_sized_def)
    moreover from inv t iv have "i * 3 + v < length f" by (simp add: P_def nat_mult_distrib)
    ultimately obtain a' f' where step: "weld_corner fr (i, v) (a, f) = Inr (a', f')"
      using weld_corner_succeeds [OF c] vi ti by blast
    from weld_loop_indices [of fr "[(i, v)]" a f a' f'] step
    have "length f' = length f" "length a \<le> length a'" by simp_all
    with inv t have "P (a', f')" by (simp add: P_def)
    with step x t show "\<exists>t'. weld_corner fr x t = Inr t' \<and> P t'" by blast
  qed
  then show ?thesis by auto
qed

subsection \<open>The filling loop\<close>

lemma store3_eq_Inr:
  "store3 xs k (a, b, c) = Inr ys \<longleftrightarrow> k + 2 < length xs \<and> ys = xs[k := a, k + 1 := b, k + 2 := c]"
  by (auto simp: store3_def ebind_eq_Inr vector_store_eq_Inr)

lemma store2_eq_Inr:
  "store2 xs k (a, b) = Inr ys \<longleftrightarrow> k + 1 < length xs \<and> ys = xs[k := a, k + 1 := b]"
  by (auto simp: store2_def ebind_eq_Inr vector_store_eq_Inr)

lemma fill_slot_Inr:
  assumes "fill_slot fr vm i (vv, vt, vn) = Inr (vv', vt', vn')"
  shows "i < length vm \<and> length vv' = length vv \<and> length vt' = length vt \<and> length vn' = length vn \<and>
     (if 0 \<le> original_index (vm ! i)
      then i * 2 + 1 < length vt \<and>
           vt' = vt[i * 2 := fst (expected_texcoord fr (vm ! i)),
                    i * 2 + 1 := snd (expected_texcoord fr (vm ! i))]
      else vt' = vt)"
proof -
  from assms have i: "i < length vm"
    by (auto simp: fill_slot_def ebind_eq_Inr vector_at_eq_Inr)
  show ?thesis
  proof (cases "0 \<le> original_index (vm ! i)")
    case False
    with assms i show ?thesis
      by (simp add: fill_slot_def vector_at_def)
  next
    case True
    obtain p where p: "verts fr ! nat (original_index (vm ! i)) = p" by simp
    obtain n where n: "normals fr ! nat (norm_index (vm ! i)) = n" by simp
    obtain u w where uw: "expected_texcoord fr (vm ! i) = (u, w)"
      by (cases "expected_texcoord fr (vm ! i)")
    from assms i True obtain vv1 vn1 where
      "store3 vv (i * 3) p = Inr vv1" "store3 vn (i * 3) n = Inr vn1"
      and rest: "(if tex_index (vm ! i) < num_texcoords fr
         then ebind (vector_at (texcoords fr) (tex_index (vm ! i))) (\<lambda>t.
              ebind (store2 vt (i * 2) t) (\<lambda>vt. Inr (vv1, vt, vn1)))
         else ebind (store2 vt (i * 2) (0, 0)) (\<lambda>vt. Inr (vv1, vt, vn1))) = Inr (vv', vt', vn')"
      by (auto simp: fill_slot_def ebind_eq_Inr vector_at_eq_Inr p n split: if_splits)
    then have len3: "length vv1 = length vv" "length vn1 = length vn"
      by (cases p; cases n; simp add: store3_eq_Inr)+
    from rest uw have "store2 vt (i * 2) (u, w) = Inr vt'" and "vv' = vv1" and "vn' = vn1"
      by (auto simp: expected_texcoord_def ebind_eq_Inr vector_at_eq_Inr split: if_splits)
    with len3 uw i True show ?thesis
      by (simp add: store2_eq_Inr)
  qed
qed

lemma float_of_nat_exact: "m \<le> 2 ^ 24 \<Longrightarrow> float_of_nat m = m"
  by (simp add: float_of_nat_def)

lemma float_mul_exact: "a * b \<le> 2 ^ 24 \<Longrightarrow> float_mul a b = a * b"
  by (simp add: float_mul_def float_of_nat_exact)

text \<open>The loop stops before the table length, and at it when the length is at most
  \<open>2 ^ 24\<close>.\<close>

lemma fill_indices_less: "i \<in> set (fill_indices n) \<Longrightarrow> i < n"
proof -
  assume "i \<in> set (fill_indices n)"
  then have "i \<in> set [0..<Suc n]" and "float_of_nat i < float_of_nat n"
    unfolding fill_indices_def by (auto dest: set_takeWhileD)
  then show ?thesis by (cases "i = n") auto
qed

lemma fill_indices_exact: "n \<le> 2 ^ 24 \<Longrightarrow> fill_indices n = [0..<n]"
proof -
  assume n: "n \<le> 2 ^ 24"
  have "takeWhile (\<lambda>i. float_of_nat i < float_of_nat n) ([0..<n] @ [n])
      = [0..<n] @ takeWhile (\<lambda>i. float_of_nat i < float_of_nat n) [n]"
    by (rule takeWhile_append2) (use n in \<open>simp add: float_of_nat_exact\<close>)
  then show ?thesis by (simp add: fill_indices_def)
qed

lemma distinct_fill_indices: "distinct (fill_indices n)"
  by (simp add: fill_indices_def distinct_takeWhile)

lemma ReadData_fill_Inr:
  assumes "ReadData_fill fr vm = Inr (vv, vt, vn)"
  shows "length vv = float_mul (float_of_nat (length vm)) 3"
    and "length vt = float_mul (float_of_nat (length vm)) 2"
    and "length vn = float_mul (float_of_nat (length vm)) 3"
    and "\<forall>i \<in> set (fill_indices (length vm)). 0 \<le> original_index (vm ! i) \<longrightarrow>
           (vt ! (i * 2), vt ! (i * 2 + 1)) = expected_texcoord fr (vm ! i)"
proof -
  define n3 n2 where "n3 = float_mul (float_of_nat (length vm)) 3"
    and "n2 = float_mul (float_of_nat (length vm)) 2"
  from assms have run: "efold (fill_slot fr vm) (fill_indices (length vm))
      (replicate n3 0, replicate n2 0, replicate n3 0) = Inr (vv, vt, vn)"
    by (simp add: ReadData_fill_def Let_def n3_def n2_def)
  define P where "P = (\<lambda>ys (st :: 'a list \<times> 'a list \<times> 'a list).
     length (fst st) = n3 \<and> length (fst (snd st)) = n2 \<and> length (snd (snd st)) = n3 \<and>
     (\<forall>i \<in> set ys. 0 \<le> original_index (vm ! i) \<longrightarrow>
        (fst (snd st) ! (i * 2), fst (snd st) ! (i * 2 + 1)) = expected_texcoord fr (vm ! i)))"
  have "P (fill_indices (length vm)) (vv, vt, vn)"
  proof (rule efold_prefix_invariant [OF run])
    show "P [] (replicate n3 0, replicate n2 0, replicate n3 0)"
      by (simp add: P_def)
  next
    fix ys j zs t t'
    assume split: "fill_indices (length vm) = ys @ j # zs" and inv: "P ys t"
      and step: "fill_slot fr vm j t = Inr t'"
    obtain a b c where t: "t = (a, b, c)" by (cases t)
    obtain a' b' c' where t': "t' = (a', b', c')" by (cases t')
    note facts = fill_slot_Inr [OF step [unfolded t t']]
    have "distinct (ys @ j # zs)"
      using split distinct_fill_indices [of "length vm"] by simp
    then have fresh: "j \<notin> set ys" by simp
    have "(b' ! (i * 2), b' ! (i * 2 + 1)) = expected_texcoord fr (vm ! i)"
      if i: "i \<in> set (ys @ [j])" and pop: "0 \<le> original_index (vm ! i)" for i
    proof (cases "i = j")
      case True
      with facts pop show ?thesis by simp
    next
      case False
      with i have mem: "i \<in> set ys" by simp
      with inv t pop have old: "(b ! (i * 2), b ! (i * 2 + 1)) = expected_texcoord fr (vm ! i)"
        by (simp add: P_def)
      from False have "i * 2 \<noteq> j * 2" "i * 2 \<noteq> j * 2 + 1" "i * 2 + 1 \<noteq> j * 2" "i * 2 + 1 \<noteq> j * 2 + 1"
        by presburger+
      with facts old show ?thesis
        by (cases "0 \<le> original_index (vm ! j)") simp_all
    qed
    with facts inv t show "P (ys @ [j]) t'"
      unfolding P_def t' by simp
  qed
  then show "length vv = float_mul (float_of_nat (length vm)) 3"
    and "length vt = float_mul (float_of_nat (length vm)) 2"
    and "length vn = float_mul (float_of_nat (length vm)) 3"
    and "\<forall>i \<in> set (fill_indices (length vm)). 0 \<le> original_index (vm ! i) \<longrightarrow>
           (vt ! (i * 2), vt ! (i * 2 + 1)) = expected_texcoord fr (vm ! i)"
    by (simp_all add: P_def n3_def n2_def)
qed

text \<open>While three times the table length is at most \<open>2 ^ 24\<close> the products are exact and
  the arrays hold three, two and three floats for each entry.\<close>

lemma ReadData_fill_lengths:
  assumes "ReadData_fill fr vm = Inr (vv, vt, vn)" and "3 * length vm \<le> 2 ^ 24"
  shows "length vv = 3 * length vm" and "length vt = 2 * length vm" and "length vn = 3 * length vm"
  using ReadData_fill_Inr(1,2,3) [OF assms(1)] assms(2)
  by (simp_all add: float_of_nat_exact float_mul_exact mult.commute)

lemma ReadData_fill_texcoords:
  assumes "ReadData_fill fr vm = Inr (vv, vt, vn)" and "length vm \<le> 2 ^ 24"
  shows "\<forall>i < length vm. 0 \<le> original_index (vm ! i) \<longrightarrow>
           (vt ! (i * 2), vt ! (i * 2 + 1)) = expected_texcoord fr (vm ! i)"
  using ReadData_fill_Inr(4) [OF assms(1)] assms(2)
  by (simp add: fill_indices_exact)

lemma fill_slot_succeeds:
  assumes sized: "frame_sized nfaces fr" and slot: "slot_in_range fr (vm ! i)" and i: "i < length vm"
    and len: "length vv = 3 * length vm" "length vt = 2 * length vm" "length vn = 3 * length vm"
    and small: "3 * length vm \<le> 2 ^ 24"
  shows "\<exists>r. fill_slot fr vm i (vv, vt, vn) = Inr r"
proof (cases "0 \<le> original_index (vm ! i)")
  case False
  with i show ?thesis by (simp add: fill_slot_def vector_at_def)
next
  case True
  with slot have r: "original_index (vm ! i) < num_verts fr" "0 \<le> norm_index (vm ! i)"
    "norm_index (vm ! i) < num_normals fr" "0 \<le> tex_index (vm ! i)"
    by (simp_all add: slot_in_range_def)
  from sized have sz: "length (verts fr) = nat (num_verts fr)" "length (normals fr) = nat (num_normals fr)"
    "length (texcoords fr) = nat (num_texcoords fr)"
    by (simp_all add: frame_sized_def)
  obtain p1 p2 p3 where p: "verts fr ! nat (original_index (vm ! i)) = (p1, p2, p3)"
    by (cases "verts fr ! nat (original_index (vm ! i))")
  obtain n1 n2 n3 where n: "normals fr ! nat (norm_index (vm ! i)) = (n1, n2, n3)"
    by (cases "normals fr ! nat (norm_index (vm ! i))")
  obtain u w where uw: "texcoords fr ! nat (tex_index (vm ! i)) = (u, w)"
    by (cases "texcoords fr ! nat (tex_index (vm ! i))")
  have k3: "i * 3 + 2 < length vv" "i * 3 + 2 < length vn" and k2: "i * 2 + 1 < length vt"
    using i len by simp_all
  from i small have fits: "\<not> int i * 3 + 2 > INT_MAX"
    by (simp add: INT_MAX_def)
  have "\<exists>ys. store3 vv (i * 3) (p1, p2, p3) = Inr ys" "\<exists>ys. store3 vn (i * 3) (n1, n2, n3) = Inr ys"
    "\<exists>ys. store2 vt (i * 2) (u, w) = Inr ys" "\<exists>ys. store2 vt (i * 2) (0, 0) = Inr ys"
    using k3 k2 by (simp_all add: store3_eq_Inr store2_eq_Inr)
  then obtain y1 y2 y3 y4 where
    "store3 vv (i * 3) (p1, p2, p3) = Inr y1" "store3 vn (i * 3) (n1, n2, n3) = Inr y2"
    "store2 vt (i * 2) (u, w) = Inr y3" "store2 vt (i * 2) (0, 0) = Inr y4"
    by blast
  with True r sz i p n uw fits show ?thesis
    by (simp add: fill_slot_def vector_at_def)
qed

lemma ReadData_fill_succeeds:
  assumes sized: "frame_sized nfaces fr" and slots: "\<forall>e \<in> set vm. slot_in_range fr e"
    and small: "3 * length vm \<le> 2 ^ 24"
  shows "\<exists>r. ReadData_fill fr vm = Inr r"
proof -
  define P where "P = (\<lambda>st :: 'a list \<times> 'a list \<times> 'a list.
     length (fst st) = 3 * length vm \<and> length (fst (snd st)) = 2 * length vm \<and>
     length (snd (snd st)) = 3 * length vm)"
  have "\<exists>s'. efold (fill_slot fr vm) [0..<length vm]
      (replicate (length vm * 3) 0, replicate (length vm * 2) 0, replicate (length vm * 3) 0)
      = Inr s' \<and> P s'"
  proof (rule efold_succeeds)
    show "P (replicate (length vm * 3) 0, replicate (length vm * 2) 0, replicate (length vm * 3) 0)"
      by (simp add: P_def)
  next
    fix i t
    assume "i \<in> set [0..<length vm]" and inv: "P t"
    then have i: "i < length vm" by simp
    obtain a b c where t: "t = (a, b, c)" by (cases t)
    from inv t have len: "length a = 3 * length vm" "length b = 2 * length vm" "length c = 3 * length vm"
      by (simp_all add: P_def)
    from slots i have "slot_in_range fr (vm ! i)" by simp
    from fill_slot_succeeds [OF sized this i len small] obtain r where r: "fill_slot fr vm i (a, b, c) = Inr r" ..
    obtain a' b' c' where r': "r = (a', b', c')" by (cases r)
    from fill_slot_Inr [OF r [unfolded r']] len have "P r"
      by (simp add: P_def r')
    with r t show "\<exists>t'. fill_slot fr vm i t = Inr t' \<and> P t'" by blast
  qed
  moreover from small have "length vm \<le> 2 ^ 24" "length vm * 3 \<le> 2 ^ 24" "length vm * 2 \<le> 2 ^ 24"
    by simp_all
  ultimately show ?thesis
    by (auto simp: ReadData_fill_def Let_def float_of_nat_exact float_mul_exact fill_indices_exact)
qed

subsection \<open>The stages of ReadData together\<close>

lemma object_sized_scaled [simp]: "object_sized (scaled_object ops obj) = object_sized obj"
  unfolding scaled_object_def by (rule object_sized_map) simp

lemma object_sized_corrected [simp]: "object_sized (corrected_object obj) = object_sized obj"
  unfolding corrected_object_def by (rule object_sized_map) simp

lemma indices_in_range_scaled [simp]: "indices_in_range (scaled_object ops obj) = indices_in_range obj"
  unfolding scaled_object_def by (rule indices_in_range_map) simp_all

lemma indices_in_range_corrected [simp]: "indices_in_range (corrected_object obj) = indices_in_range obj"
  unfolding corrected_object_def by (rule indices_in_range_map) simp_all

lemma info_scaled [simp]: "info (scaled_object ops obj) = info obj"
  by (simp add: scaled_object_def)

lemma info_corrected [simp]: "info (corrected_object obj) = info obj"
  by (simp add: corrected_object_def)

lemma faces_scaled [simp]: "faces (scaled_frame ops fr) = faces fr"
  and num_verts_scaled [simp]: "num_verts (scaled_frame ops fr) = num_verts fr"
  and num_normals_scaled [simp]: "num_normals (scaled_frame ops fr) = num_normals fr"
  and num_texcoords_scaled [simp]: "num_texcoords (scaled_frame ops fr) = num_texcoords fr"
  and texcoords_scaled [simp]: "texcoords (scaled_frame ops fr) = texcoords fr"
  by (simp_all add: scaled_frame_def)

lemma faces_corrected [simp]: "faces (corrected_frame fr) = faces fr"
  and num_verts_corrected [simp]: "num_verts (corrected_frame fr) = num_verts fr"
  and num_normals_corrected [simp]: "num_normals (corrected_frame fr) = num_normals fr"
  and num_texcoords_corrected [simp]: "num_texcoords (corrected_frame fr) = num_texcoords fr"
  and texcoords_corrected [simp]: "texcoords (corrected_frame fr) = texcoords fr"
  by (simp_all add: corrected_frame_def)

text \<open>What a successful decoding stage has done.\<close>

lemma ReadData_object_Inr:
  assumes "ReadData_object ops hdr f = Inr obj"
  obtains obj0 rest need where "ReadData_frames ops hdr f = Inr (obj0, rest)"
    and "NeedsNormalSwap ops (scaled_object ops obj0) = Inr need"
    and "obj = (if need then corrected_object (scaled_object ops obj0) else scaled_object ops obj0)"
proof -
  from assms obtain obj0 rest obj1 where
    fr: "ReadData_frames ops hdr f = Inr (obj0, rest)" and
    sc: "ReadData_scale ops obj0 = Inr obj1" and
    co: "ReadData_correct ops obj1 = Inr obj"
    by (auto simp: ReadData_object_def ebind_eq_Inr)
  from ReadData_frames_sized(1) [OF fr] have sized: "object_sized obj0" .
  from sc ReadData_scale_sized [OF sized, of ops] have obj1: "obj1 = scaled_object ops obj0"
    by (simp add: scaled_object_def)
  from co obtain need where need: "NeedsNormalSwap ops obj1 = Inr need"
    by (auto simp: ReadData_correct_def ebind_eq_Inr)
  from sized obj1 have "object_sized obj1" by simp
  from ReadData_correct_sized [OF this need] co
  have "obj = (if need then corrected_object obj1 else obj1)"
    by (simp add: corrected_object_def)
  with fr need obj1 show ?thesis using that by blast
qed

lemma ReadData_object_sized:
  assumes "ReadData_object ops hdr f = Inr obj"
  shows "object_sized obj" and "info obj = hdr" and "list_all frame_in_range (frames obj)"
proof -
  from assms obtain obj0 rest need where
    fr: "ReadData_frames ops hdr f = Inr (obj0, rest)" and
    need: "NeedsNormalSwap ops (scaled_object ops obj0) = Inr need" and
    obj: "obj = (if need then corrected_object (scaled_object ops obj0) else scaled_object ops obj0)"
    by (rule ReadData_object_Inr)
  note sized = ReadData_frames_sized [OF fr]
  from sized obj show "object_sized obj" and "info obj = hdr" by simp_all
  from sized have "object_sized (scaled_object ops obj0)" by simp
  from NeedsNormalSwap_succeeds_iff [OF this, of ops] need
  have "list_all frame_in_range (frames (scaled_object ops obj0))" by blast
  with obj show "list_all frame_in_range (frames obj)"
    by (simp add: corrected_object_def list_all_iff)
qed

lemma ReadData_object_succeeds:
  assumes fr: "ReadData_frames ops hdr f = Inr (obj0, rest)" and range: "indices_in_range obj0"
  shows "\<exists>need. ReadData_object ops hdr f =
           Inr (if need then corrected_object (scaled_object ops obj0) else scaled_object ops obj0)"
proof -
  note sized = ReadData_frames_sized(1) [OF fr]
  then have s1: "object_sized (scaled_object ops obj0)" by simp
  from range have "list_all frame_in_range (frames (scaled_object ops obj0))"
    using indices_in_range_scaled [of ops obj0] by (simp add: indices_in_range_def)
  with NeedsNormalSwap_succeeds_iff [OF s1, of ops]
  obtain need where need: "NeedsNormalSwap ops (scaled_object ops obj0) = Inr need" by blast
  have "ReadData_object ops hdr f =
      Inr (if need then corrected_object (scaled_object ops obj0) else scaled_object ops obj0)"
    using fr ReadData_scale_sized [OF sized, of ops] ReadData_correct_sized [OF s1 need]
    by (simp add: ReadData_object_def scaled_object_def corrected_object_def)
  then show ?thesis ..
qed

lemma empty_slot_in_range: "slot_in_range fr empty_VertEntry"
  by (simp add: slot_in_range_def empty_VertEntry_def)

lemma ReadData_weld_succeeds:
  assumes sized: "object_sized obj" and range: "indices_in_range obj"
    and frames: "1 \<le> num_frames (info obj)"
    and faces: "num_faces (info obj) \<le> 32000"
    and small: "3 * (num_verts (hd (frames obj)) + 3 * num_faces (info obj)) \<le> 2 ^ 24"
  shows "\<exists>vm vf. ReadData_weld obj = Inr (vm, vf) \<and> 3 * length vm \<le> 2 ^ 24 \<and>
           (\<forall>e \<in> set vm. slot_in_range (hd (frames obj)) e)"
proof -
  from sized frames obtain fr frs where frs: "frames obj = fr # frs"
    by (cases "frames obj") (auto simp: object_sized_def)
  with sized range have fr: "frame_sized (num_faces (info obj)) fr" "frame_in_range fr" "texture_nonneg fr"
    by (simp_all add: object_sized_def indices_in_range_def)
  then have nonneg: "0 \<le> num_faces (info obj)" "0 \<le> num_verts fr"
    by (simp_all add: frame_sized_def)
  from weld_loop_succeeds [OF fr] obtain vm vf where
    run: "efold (weld_corner fr) (List.product [0..<nat (num_faces (info obj))] [0..<3])
           (replicate (nat (num_verts fr)) empty_VertEntry, replicate (nat (num_faces (info obj) * 3)) 0)
         = Inr (vm, vf)"
    by blast
  from small frs nonneg have "num_verts fr * 2 \<le> INT_MAX"
    by (simp add: INT_MAX_def)
  with run frs nonneg faces have weld: "ReadData_weld obj = Inr (vm, vf)"
    by (simp add: ReadData_weld_def vector_at_def vector_size_def int_mul_def INT_MAX_def)
  from weld_loop_indices [OF run] have "length vm \<le> nat (num_verts fr) + nat (num_faces (info obj)) * 3"
    by simp
  with small frs nonneg have len: "3 * length vm \<le> 2 ^ 24"
    by (simp add: nat_le_iff)
  have "slot_in_range fr e" if "e \<in> set vm" for e
  proof -
    from weld_loop_entries [OF run that]
    consider "e = empty_VertEntry"
      | i v where "i < nat (num_faces (info obj))" "v < 3" "e = entry_of (corner fr (i, v))"
          "0 \<le> tex_index e"
      by auto
    then show ?thesis
    proof cases
      case 1
      then show ?thesis by (simp add: empty_slot_in_range)
    next
      case 2
      obtain vi ni ti where c: "corner fr (i, v) = (vi, ni, ti)" by (cases "corner fr (i, v)")
      from corner_facts [OF fr(1,2) 2(1,2) c] 2(3,4) c show ?thesis
        by (simp add: slot_in_range_def entry_of_def)
    qed
  qed
  with weld len frs show ?thesis by auto
qed

subsection \<open>Running the loader on a concrete file\<close>

lemma records_numeral:
  "records sz (numeral k) bs = take sz bs # records sz (pred_numeral k) (drop sz bs)"
  by (simp add: numeral_eq_Suc)

lemma upt_0_numeral: "[0..<numeral n] = 0 # [Suc 0..<numeral n]"
  by (simp add: upt_rec [of 0])

lemma upt_Suc0_numeral:
  "[Suc 0..<numeral n] = (if Suc 0 < numeral n then Suc 0 # [2..<numeral n] else [])"
  by (simp add: upt_rec [of "Suc 0"] numeral_2_eq_2)

lemma replicate_numeral_unfold: "replicate (numeral k) x = x # replicate (pred_numeral k) x"
  by (simp add: numeral_eq_Suc)

lemma list_update_Cons_numeral: "(x # xs)[numeral k := y] = x # xs[pred_numeral k := y]"
  by (simp add: numeral_eq_Suc)

lemmas run_simps = replicate_numeral_unfold list_update_Cons_numeral
  upt_0_numeral upt_Suc0_numeral vector_at_def vector_store_def vector_size_def Let_def

lemmas decode_simps = ReadData_frames_def vector_size_def read_frame_def BinaryRead_def
  read_int_def int32_of_bytes_def int16_of_bytes_def signed_of_def
  JoeFace_of_bytes_def short3_of_bytes_def field_def JoeVertex_of_bytes_def
  JoeTexCoord_of_bytes_def records_numeral file_header_def JoeHeader_of_bytes_def

lemmas swap_simps = NeedsNormalSwap_def normal_flip_count_def face_flip_vote_def
  gather_corner_def flip_vote_def c_div_def

lemma quad_file_header: "file_header quad_file = quad_header"
  by (simp add: quad_file_def quad_header_def decode_simps)

lemma quad_file_frames:
  "ReadData_frames exact_ops quad_header (drop 16 quad_file) = Inr (quad_object, [])"
  by (simp add: quad_file_def quad_header_def quad_object_def quad_frame_def exact_ops_def
      decode_simps)

lemma quad_scale: "ReadData_scale exact_ops quad_object = Inr quad_object"
  by (simp add: quad_object_def quad_frame_def quad_header_def ReadData_scale_def update_each_def
      scale_frame_def exact_ops_def run_simps)

lemma quad_swap: "NeedsNormalSwap exact_ops quad_object = Inr False"
  by (simp add: quad_object_def quad_frame_def quad_header_def exact_ops_def swap_simps run_simps)

lemma quad_ReadData_object: "ReadData_object exact_ops quad_header (drop 16 quad_file) = Inr quad_object"
  by (simp add: ReadData_object_def quad_file_frames quad_scale ReadData_correct_def quad_swap)

lemma quad_weld: "ReadData_weld quad_object = Inr (quad_table, m_faces quad_mesh)"
  by (simp add: quad_object_def quad_frame_def quad_header_def quad_table_def quad_mesh_def
      ReadData_weld_def weld_corner_def int_mul_def INT_MAX_def empty_VertEntry_def run_simps)

lemma quad_fill:
  "ReadData_fill quad_frame quad_table =
     Inr (m_vertices quad_mesh, m_texcoords quad_mesh, m_normals quad_mesh)"
  by (simp add: quad_frame_def quad_table_def quad_mesh_def ReadData_fill_def fill_indices_exact float_of_nat_def float_mul_def INT_MAX_def
      fill_slot_def
      store3_def store2_def run_simps)

lemma quad_load: "LoadFromHandle exact_ops quad_file = Inr quad_mesh"
proof -
  have "BinaryRead 16 1 quad_file = Inr (take 16 quad_file, drop 16 quad_file)"
    by (simp add: BinaryRead_def quad_file_def)
  moreover have "JoeHeader_of_bytes (take 16 quad_file) = quad_header"
    using quad_file_header by (simp add: file_header_def)
  moreover have "vector_at (frames quad_object) 0 = Inr quad_frame"
    by (simp add: vector_at_def quad_object_def)
  then have "ReadData exact_ops quad_header (drop 16 quad_file) = Inr quad_mesh"
    by (simp add: ReadData_def quad_ReadData_object quad_weld quad_fill)
  moreover have "version quad_header = 3" and "num_faces quad_header = 2"
    by (simp_all add: quad_header_def)
  ultimately show ?thesis
    by (simp add: LoadFromHandle_def JOE_VERSION_def JOE_MAX_FACES_def)
qed

lemma tri_file_header: "file_header tri_file = tri_header"
  by (simp add: tri_file_def tri_header_def decode_simps)

lemma tri_file_frames:
  "ReadData_frames exact_ops tri_header (drop 16 tri_file) = Inr (tri_object, [])"
  by (simp add: tri_file_def tri_header_def tri_object_def tri_frame_def exact_ops_def decode_simps)

lemma tri_scale: "ReadData_scale exact_ops tri_object = Inr tri_object"
  by (simp add: tri_object_def tri_frame_def tri_header_def ReadData_scale_def update_each_def
      scale_frame_def exact_ops_def run_simps)

lemma tri_swap: "NeedsNormalSwap exact_ops tri_object = Inr True"
  by (simp add: tri_object_def tri_frame_def tri_header_def exact_ops_def swap_simps run_simps)

lemma tri_weld: "ReadData_weld tri_object = Inr (tri_table, [0, 1, 2])"
  by (simp add: tri_object_def tri_frame_def tri_header_def tri_table_def
      ReadData_weld_def weld_corner_def int_mul_def INT_MAX_def empty_VertEntry_def run_simps)

lemma dup_file_header: "file_header dup_file = dup_header"
  by (simp add: dup_file_def dup_header_def decode_simps)

lemma dup_file_frames:
  "ReadData_frames exact_ops dup_header (drop 16 dup_file) = Inr (dup_object, [])"
  by (simp add: dup_file_def dup_header_def dup_object_def dup_frame_def exact_ops_def decode_simps)

lemma dup_scale: "ReadData_scale exact_ops dup_object = Inr dup_object"
  by (simp add: dup_object_def dup_frame_def dup_header_def ReadData_scale_def update_each_def
      scale_frame_def exact_ops_def run_simps)

lemma dup_swap: "NeedsNormalSwap exact_ops dup_object = Inr False"
  by (simp add: dup_object_def dup_frame_def dup_header_def exact_ops_def swap_simps run_simps)

lemma dup_ReadData_object: "ReadData_object exact_ops dup_header (drop 16 dup_file) = Inr dup_object"
  by (simp add: ReadData_object_def dup_file_frames dup_scale ReadData_correct_def dup_swap)

lemma dup_weld: "ReadData_weld dup_object = Inr (dup_table, [0, 1, 2, 3, 1, 2, 4, 1, 2])"
  by (simp add: dup_object_def dup_frame_def dup_header_def dup_table_def
      ReadData_weld_def weld_corner_def int_mul_def INT_MAX_def empty_VertEntry_def run_simps)

subsection \<open>What a successful load has done\<close>

lemma LoadFromHandle_Inr:
  assumes "LoadFromHandle ops f = Inr m"
  shows "16 \<le> length f" and "version (file_header f) = 3" and "num_faces (file_header f) \<le> 32000"
    and "ReadData ops (file_header f) (drop 16 f) = Inr m"
  using assms
  by (auto simp: LoadFromHandle_def ebind_eq_Inr BinaryRead_eq_Inr file_header_def Let_def
      JOE_VERSION_def JOE_MAX_FACES_def split: if_splits)

lemma LoadFromHandle_header:
  assumes "16 \<le> length f"
  shows "LoadFromHandle ops f =
     (if version (file_header f) \<noteq> 3 then Inl (VersionMismatch (version (file_header f)) 3)
      else if num_faces (file_header f) > 32000
      then Inl (FaceCountExceeded (num_faces (file_header f)) 32000)
      else ReadData ops (file_header f) (drop 16 f))"
  using assms
  by (simp add: LoadFromHandle_def BinaryRead_def file_header_def Let_def JOE_VERSION_def
      JOE_MAX_FACES_def)

lemma ReadData_Inr:
  assumes "ReadData ops hdr f = Inr m"
  obtains obj vm fr frs where "ReadData_object ops hdr f = Inr obj"
    and "ReadData_weld obj = Inr (vm, m_faces m)" and "frames obj = fr # frs"
    and "ReadData_fill fr vm = Inr (m_vertices m, m_texcoords m, m_normals m)"
proof -
  from assms obtain obj vm vf fr vv vt vn where
    obj: "ReadData_object ops hdr f = Inr obj" and weld: "ReadData_weld obj = Inr (vm, vf)"
    and fr: "vector_at (frames obj) 0 = Inr fr" and fill: "ReadData_fill fr vm = Inr (vv, vt, vn)"
    and m: "m = \<lparr>m_faces = vf, m_vertices = vv, m_normals = vn, m_texcoords = vt\<rparr>"
    by (auto simp: ReadData_def ebind_eq_Inr)
  from fr obtain frs where "frames obj = fr # frs"
    by (cases "frames obj") (auto simp: vector_at_def)
  with obj weld fill m show ?thesis using that by simp
qed

lemma quad_in_range: "indices_in_range quad_object"
  by (simp add: indices_in_range_def frame_in_range_def corner_in_range_def texture_nonneg_def
      quad_object_def quad_frame_def upt_0_numeral upt_Suc0_numeral)

lemma LoadFromHandle_append:
  assumes "length hb = 16"
  shows "LoadFromHandle ops (hb @ rest) =
     (if version (JoeHeader_of_bytes hb) \<noteq> 3
      then Inl (VersionMismatch (version (JoeHeader_of_bytes hb)) 3)
      else if num_faces (JoeHeader_of_bytes hb) > 32000
      then Inl (FaceCountExceeded (num_faces (JoeHeader_of_bytes hb)) 32000)
      else ReadData ops (JoeHeader_of_bytes hb) rest)"
  using assms LoadFromHandle_header [of "hb @ rest" ops] by (simp add: file_header_def)

lemma show_int_3: "show_int 3 = ''3''"
  by code_simp

lemma show_int_32000: "show_int 32000 = ''32000''"
  by code_simp

lemma show_int_2: "show_int 2 = ''2''" by code_simp

lemma show_int_4: "show_int 4 = ''4''" by code_simp

subsection \<open>The magic field\<close>

lemma frames_with_magic [simp]: "frames (with_magic m obj) = frames obj"
  and num_faces_with_magic [simp]: "num_faces (info (with_magic m obj)) = num_faces (info obj)"
  and num_frames_with_magic [simp]: "num_frames (info (with_magic m obj)) = num_frames (info obj)"
  by (simp_all add: with_magic_def)

lemma with_magic_frames_update: "with_magic m (obj\<lparr>frames := frs\<rparr>) = (with_magic m obj)\<lparr>frames := frs\<rparr>"
  by (simp add: with_magic_def)

lemma ReadData_frames_magic:
  "ReadData_frames ops (hdr\<lparr>magic := m\<rparr>) f =
     ebind (ReadData_frames ops hdr f) (\<lambda>(obj, f'). Inr (with_magic m obj, f'))"
proof (cases "num_frames hdr < 0")
  case True
  then show ?thesis by (simp add: ReadData_frames_def vector_size_def)
next
  case False
  then show ?thesis
    by (cases "read_frames ops (num_faces hdr) (nat (num_frames hdr)) f")
      (auto simp: ReadData_frames_def vector_size_def with_magic_def)
qed

lemma ReadData_scale_magic:
  "ReadData_scale ops (with_magic m obj) = ebind (ReadData_scale ops obj) (\<lambda>o'. Inr (with_magic m o'))"
  by (cases "update_each (nat (num_frames (info obj))) (scale_frame ops) (frames obj)")
    (simp_all add: ReadData_scale_def with_magic_frames_update)

lemma NeedsNormalSwap_magic: "NeedsNormalSwap ops (with_magic m obj) = NeedsNormalSwap ops obj"
  by (simp add: NeedsNormalSwap_def)

lemma ReadData_correct_magic:
  "ReadData_correct ops (with_magic m obj) = ebind (ReadData_correct ops obj) (\<lambda>o'. Inr (with_magic m o'))"
proof (cases "NeedsNormalSwap ops obj")
  case (Inl e)
  then show ?thesis by (simp add: ReadData_correct_def NeedsNormalSwap_magic)
next
  case (Inr need)
  then show ?thesis
    by (cases "update_each (nat (num_frames (info obj))) correct_frame (frames obj)")
      (simp_all add: ReadData_correct_def NeedsNormalSwap_magic with_magic_frames_update)
qed

lemma ReadData_weld_magic: "ReadData_weld (with_magic m obj) = ReadData_weld obj"
  by (simp add: ReadData_weld_def)

lemma ReadData_object_magic:
  "ReadData_object ops (hdr\<lparr>magic := m\<rparr>) f =
     ebind (ReadData_object ops hdr f) (\<lambda>obj. Inr (with_magic m obj))"
proof (cases "ReadData_frames ops hdr f")
  case (Inl e)
  then show ?thesis by (simp add: ReadData_object_def ReadData_frames_magic)
next
  case (Inr r)
  obtain obj f' where r: "r = (obj, f')" by (cases r)
  show ?thesis
  proof (cases "ReadData_scale ops obj")
    case (Inl e)
    with Inr r show ?thesis
      by (simp add: ReadData_object_def ReadData_frames_magic ReadData_scale_magic)
  next
    case scaled: (Inr o1)
    with Inr r show ?thesis
      by (simp add: ReadData_object_def ReadData_frames_magic ReadData_scale_magic
          ReadData_correct_magic)
  qed
qed

lemma ReadData_magic: "ReadData ops (hdr\<lparr>magic := m\<rparr>) f = ReadData ops hdr f"
  by (cases "ReadData_object ops hdr f")
    (simp_all add: ReadData_def ReadData_object_magic ReadData_weld_magic)

lemma header_fields_after_magic:
  assumes "drop 4 f1 = drop 4 f2"
  shows "version (file_header f1) = version (file_header f2)"
    and "num_faces (file_header f1) = num_faces (file_header f2)"
    and "num_frames (file_header f1) = num_frames (file_header f2)"
proof -
  have "drop (4 + k) (take 16 f1) = drop (4 + k) (take 16 f2)" for k
  proof -
    have eq: "drop (4 + k) (take 16 f) = take (12 - k) (drop k (drop 4 f))" for f :: "byte list"
      by (simp add: drop_take add.commute)
    show ?thesis by (simp only: eq assms)
  qed
  from this [of 0] this [of 4] this [of 8] show "version (file_header f1) = version (file_header f2)"
    and "num_faces (file_header f1) = num_faces (file_header f2)"
    and "num_frames (file_header f1) = num_frames (file_header f2)"
    by (simp_all add: file_header_def JoeHeader_of_bytes_def field_def)
qed

subsection \<open>The table the welder builds\<close>

lemma populated_empty [simp]: "\<not> populated empty_VertEntry"
  by (simp add: populated_def empty_VertEntry_def)

lemma entry_of_simps [simp]:
  "original_index (entry_of (vi, ni, ti)) = vi"
  "norm_index (entry_of (vi, ni, ti)) = ni"
  "tex_index (entry_of (vi, ni, ti)) = ti"
  by (simp_all add: entry_of_def)

lemma weld_loop_unique:
  assumes run: "efold (weld_corner fr) cs (replicate n empty_VertEntry, vf0) = Inr (vm, vf)"
    and unique: "\<forall>c \<in> set cs. \<forall>d \<in> set cs. fst (corner fr c) = fst (corner fr d) \<longrightarrow> corner fr c = corner fr d"
  shows "length vm = n"
proof -
  define Q where "Q = (\<lambda>st :: VertEntry list \<times> int list.
     length (fst st) = n \<and>
     (\<forall>s < n. fst st ! s = empty_VertEntry \<or>
        (\<exists>c \<in> set cs. fst st ! s = entry_of (corner fr c) \<and> fst (corner fr c) = int s)))"
  have "Q (vm, vf)"
  proof (rule efold_invariant [OF run])
    show "Q (replicate n empty_VertEntry, vf0)" by (simp add: Q_def)
  next
    fix x t t'
    assume mem: "x \<in> set cs" and inv: "Q t" and step: "weld_corner fr x t = Inr t'"
    obtain i v where x: "x = (i, v)" by (cases x)
    obtain a f where t: "t = (a, f)" by (cases t)
    obtain a' f' where t': "t' = (a', f')" by (cases t')
    obtain vi ni ti where c: "corner fr (i, v) = (vi, ni, ti)" by (cases "corner fr (i, v)")
    from inv t have len: "length a = n"
      and slots: "\<And>s. s < n \<Longrightarrow> a ! s = empty_VertEntry \<or>
        (\<exists>c \<in> set cs. a ! s = entry_of (corner fr c) \<and> fst (corner fr c) = int s)"
      by (auto simp: Q_def)
    from weld_corner_Inr [OF step [unfolded x t t'] c]
    have vi: "0 \<le> vi" "vi < int (length a)"
      and cases: "\<not> populated (a ! nat vi) \<and> a' = a[nat vi := entry_of (vi, ni, ti)]
        \<or> a' = a
        \<or> populated (a ! nat vi) \<and> (norm_index (a ! nat vi), tex_index (a ! nat vi)) \<noteq> (ni, ti)"
      by auto
    from vi len have s0: "nat vi < n" by simp
    from cases show "Q t'"
    proof (elim disjE conjE)
      assume a': "a' = a[nat vi := entry_of (vi, ni, ti)]"
      have "a' ! s = empty_VertEntry \<or>
          (\<exists>c \<in> set cs. a' ! s = entry_of (corner fr c) \<and> fst (corner fr c) = int s)"
        if "s < n" for s
      proof (cases "s = nat vi")
        case True
        with a' len s0 mem x c vi show ?thesis
          by (auto intro!: bexI [of _ "(i, v)"])
      next
        case False
        with a' slots [OF that] show ?thesis by simp
      qed
      with a' len show ?thesis by (simp add: Q_def t')
    next
      assume "a' = a"
      with inv t show ?thesis by (simp add: t' Q_def)
    next
      assume pop: "populated (a ! nat vi)"
        and differ: "(norm_index (a ! nat vi), tex_index (a ! nat vi)) \<noteq> (ni, ti)"
      from slots [OF s0] pop obtain d where d: "d \<in> set cs" "a ! nat vi = entry_of (corner fr d)"
        "fst (corner fr d) = int (nat vi)"
        by auto
      with vi c have "fst (corner fr d) = fst (corner fr (i, v))" by simp
      with unique d(1) mem x have "corner fr d = (vi, ni, ti)"
        using c by metis
      with d(2) differ show ?thesis by simp
    qed
  qed
  then show ?thesis by (simp add: Q_def)
qed

lemma weld_loop_distinct:
  assumes run: "efold (weld_corner fr) cs (replicate n empty_VertEntry, vf0) = Inr (vm, vf)"
    and range: "\<forall>c \<in> set cs. fst (corner fr c) < int n"
  shows "\<forall>s < n. populated (vm ! s) \<longrightarrow> original_index (vm ! s) = int s"
    and "\<forall>j. n \<le> j \<and> j < length vm \<longrightarrow>
           0 \<le> original_index (vm ! j) \<and> nat (original_index (vm ! j)) < n \<and>
           populated (vm ! nat (original_index (vm ! j))) \<and>
           (norm_index (vm ! nat (original_index (vm ! j))),
            tex_index (vm ! nat (original_index (vm ! j)))) \<noteq> (norm_index (vm ! j), tex_index (vm ! j))"
proof -
  define A where "A = (\<lambda>a :: VertEntry list. \<forall>s < n. populated (a ! s) \<longrightarrow> original_index (a ! s) = int s)"
  define B where "B = (\<lambda>(a :: VertEntry list) j.
           0 \<le> original_index (a ! j) \<and> nat (original_index (a ! j)) < n \<and>
           populated (a ! nat (original_index (a ! j))) \<and>
           (norm_index (a ! nat (original_index (a ! j))),
            tex_index (a ! nat (original_index (a ! j)))) \<noteq> (norm_index (a ! j), tex_index (a ! j)))"
  define R where "R = (\<lambda>st :: VertEntry list \<times> int list.
     n \<le> length (fst st) \<and> A (fst st) \<and> (\<forall>j. n \<le> j \<and> j < length (fst st) \<longrightarrow> B (fst st) j))"
  have "R (vm, vf)"
  proof (rule efold_invariant [OF run])
    show "R (replicate n empty_VertEntry, vf0)" by (auto simp: R_def A_def)
  next
    fix x t t'
    assume mem: "x \<in> set cs" and inv: "R t" and step: "weld_corner fr x t = Inr t'"
    obtain i v where x: "x = (i, v)" by (cases x)
    obtain a f where t: "t = (a, f)" by (cases t)
    obtain a' f' where t': "t' = (a', f')" by (cases t')
    obtain vi ni ti where c: "corner fr (i, v) = (vi, ni, ti)" by (cases "corner fr (i, v)")
    from inv t have len: "n \<le> length a" and A: "A a"
      and B: "\<And>j. n \<le> j \<Longrightarrow> j < length a \<Longrightarrow> B a j"
      by (auto simp: R_def)
    from range mem x c have below: "vi < int n" by auto
    from weld_corner_Inr [OF step [unfolded x t t'] c]
    have vi: "0 \<le> vi"
      and cases: "\<not> populated (a ! nat vi) \<and> a' = a[nat vi := entry_of (vi, ni, ti)]
        \<or> a' = a
        \<or> populated (a ! nat vi) \<and> (norm_index (a ! nat vi), tex_index (a ! nat vi)) \<noteq> (ni, ti) \<and>
          a' = a @ [entry_of (vi, ni, ti)]"
      by auto
    from vi below have s0: "nat vi < n" by simp
    from cases show "R t'"
    proof (elim disjE conjE)
      assume empty: "\<not> populated (a ! nat vi)" and a': "a' = a[nat vi := entry_of (vi, ni, ti)]"
      have "A a'"
        unfolding A_def
      proof (intro allI impI)
        fix s assume "s < n" "populated (a' ! s)"
        then show "original_index (a' ! s) = int s"
          using a' A len vi by (cases "s = nat vi") (auto simp: A_def)
      qed
      moreover have "B a' j" if j: "n \<le> j" "j < length a'" for j
      proof -
        from j a' have jl: "j < length a" by simp
        from j s0 a' have same: "a' ! j = a ! j" by simp
        from B [OF j(1) jl] have b: "0 \<le> original_index (a ! j)" "nat (original_index (a ! j)) < n"
          "populated (a ! nat (original_index (a ! j)))"
          "(norm_index (a ! nat (original_index (a ! j))), tex_index (a ! nat (original_index (a ! j))))
             \<noteq> (norm_index (a ! j), tex_index (a ! j))"
          by (simp_all add: B_def)
        from b(3) empty have "nat (original_index (a ! j)) \<noteq> nat vi" by auto
        with a' have "a' ! nat (original_index (a ! j)) = a ! nat (original_index (a ! j))" by simp
        with b same show ?thesis by (simp add: B_def)
      qed
      ultimately show ?thesis using len a' by (simp add: R_def t')
    next
      assume "a' = a"
      with inv t show ?thesis by (simp add: t' R_def)
    next
      assume pop: "populated (a ! nat vi)"
        and differ: "(norm_index (a ! nat vi), tex_index (a ! nat vi)) \<noteq> (ni, ti)"
        and a': "a' = a @ [entry_of (vi, ni, ti)]"
      have "A a'"
        using A len a' by (simp add: A_def nth_append)
      moreover have "B a' j" if j: "n \<le> j" "j < length a'" for j
      proof (cases "j < length a")
        case True
        from B [OF j(1) True] len a' True show ?thesis
          by (simp add: B_def nth_append)
      next
        case False
        with j a' have "j = length a" by simp
        with a' pop differ vi s0 len show ?thesis
          by (simp add: B_def nth_append)
      qed
      ultimately show ?thesis using len a' by (simp add: R_def t')
    qed
  qed
  then show "\<forall>s < n. populated (vm ! s) \<longrightarrow> original_index (vm ! s) = int s"
    and "\<forall>j. n \<le> j \<and> j < length vm \<longrightarrow>
           0 \<le> original_index (vm ! j) \<and> nat (original_index (vm ! j)) < n \<and>
           populated (vm ! nat (original_index (vm ! j))) \<and>
           (norm_index (vm ! nat (original_index (vm ! j))),
            tex_index (vm ! nat (original_index (vm ! j)))) \<noteq> (norm_index (vm ! j), tex_index (vm ! j))"
    by (simp_all add: R_def A_def B_def)
qed

lemma ReadData_object_corner_range:
  assumes obj: "ReadData_object ops hdr f = Inr obj" and frs: "frames obj = fr # frs"
    and c: "c \<in> set (List.product [0..<nat (num_faces (info obj))] [0..<3])"
  shows "0 \<le> fst (corner fr c) \<and> fst (corner fr c) < num_verts fr \<and>
         0 \<le> fst (snd (corner fr c)) \<and> fst (snd (corner fr c)) < num_normals fr"
proof -
  note facts = ReadData_object_sized [OF obj]
  from facts(1,3) frs have sized: "frame_sized (num_faces (info obj)) fr" and range: "frame_in_range fr"
    by (simp_all add: object_sized_def)
  obtain i v where iv: "c = (i, v)" by (cases c)
  obtain vi ni ti where t: "corner fr (i, v) = (vi, ni, ti)" by (cases "corner fr (i, v)")
  from c iv have "i < nat (num_faces (info obj))" "v < 3" by auto
  from corner_facts [OF sized range this t] iv t show ?thesis by simp
qed


lemma weld_slots_in_range:
  assumes obj: "ReadData_object ops hdr f = Inr obj"
    and weld: "ReadData_weld obj = Inr (vm, vf)"
    and frs: "frames obj = fr # frs"
    and e: "e \<in> set vm"
  shows "slot_in_range fr e"
proof -
  from weld obtain fr' frs' where frs': "frames obj = fr' # frs'"
    and run: "efold (weld_corner fr') (List.product [0..<nat (num_faces (info obj))] [0..<3])
           (replicate (nat (num_verts fr')) empty_VertEntry, replicate (nat (num_faces (info obj) * 3)) 0)
         = Inr (vm, vf)"
    by (rule ReadData_weld_Inr)
  from frs frs' have fr': "fr' = fr" by simp
  from weld_loop_entries [OF run [unfolded fr'] e]
  consider "e = empty_VertEntry"
    | c where "c \<in> set (List.product [0..<nat (num_faces (info obj))] [0..<3])"
        "e = entry_of (corner fr c)" "0 \<le> tex_index e"
    by auto
  then show ?thesis
  proof cases
    case 1
    then show ?thesis by (simp add: empty_slot_in_range)
  next
    case 2
    obtain vi ni ti where t: "corner fr c = (vi, ni, ti)" by (cases "corner fr c")
    from ReadData_object_corner_range [OF obj frs 2(1)] 2(2,3) t show ?thesis
      by (simp add: slot_in_range_def)
  qed
qed

subsection \<open>Two more concrete loads\<close>

lemma neg_tex_file_header: "file_header neg_tex_file = tri_header"
  by (simp add: neg_tex_file_def tri_header_def decode_simps)

lemma neg_tex_file_frames:
  "ReadData_frames exact_ops tri_header (drop 16 neg_tex_file) = Inr (neg_tex_object, [])"
  by (simp add: neg_tex_file_def tri_header_def neg_tex_object_def neg_tex_frame_def exact_ops_def
      decode_simps)

lemma neg_tex_scale: "ReadData_scale exact_ops neg_tex_object = Inr neg_tex_object"
  by (simp add: neg_tex_object_def neg_tex_frame_def tri_header_def ReadData_scale_def update_each_def
      scale_frame_def exact_ops_def run_simps)

lemma neg_tex_swap: "NeedsNormalSwap exact_ops neg_tex_object = Inr True"
  by (simp add: neg_tex_object_def neg_tex_frame_def tri_header_def exact_ops_def swap_simps run_simps)

lemma neg_tex_load: "LoadFromHandle exact_ops neg_tex_file = Inl AssertionFailed"
proof -
  have len: "16 \<le> length neg_tex_file" by (simp add: neg_tex_file_def)
  have hv: "version tri_header = 3" "num_faces tri_header = 1" by (simp_all add: tri_header_def)
  have "object_sized neg_tex_object"
    by (simp add: object_sized_def frame_sized_def neg_tex_object_def neg_tex_frame_def tri_header_def)
  from ReadData_correct_sized [OF this neg_tex_swap]
  have "ReadData_object exact_ops tri_header (drop 16 neg_tex_file) =
      Inr (neg_tex_object\<lparr>frames := [neg_tex_frame\<lparr>normals := [(0, 0, 1), (0, 0, 0)]\<rparr>]\<rparr>)"
    by (simp add: ReadData_object_def neg_tex_file_frames neg_tex_scale)
      (simp add: neg_tex_object_def neg_tex_frame_def corrected_frame_def correct_normal_eq)
  moreover have "ReadData_weld (neg_tex_object\<lparr>frames := [neg_tex_frame\<lparr>normals := [(0, 0, 1), (0, 0, 0)]\<rparr>]\<rparr>)
      = Inl AssertionFailed"
    by (simp add: neg_tex_object_def neg_tex_frame_def tri_header_def
        ReadData_weld_def weld_corner_def int_mul_def INT_MAX_def empty_VertEntry_def run_simps)
  ultimately have "ReadData exact_ops tri_header (drop 16 neg_tex_file) = Inl AssertionFailed"
    by (simp add: ReadData_def)
  then show ?thesis
    by (simp add: LoadFromHandle_header [OF len] neg_tex_file_header hv)
qed

lemma tri_load: "LoadFromHandle exact_ops tri_file = Inr tri_mesh"
proof -
  have len: "16 \<le> length tri_file" by (simp add: tri_file_def)
  have hv: "version tri_header = 3" "num_faces tri_header = 1" by (simp_all add: tri_header_def)
  define fr where "fr = tri_frame\<lparr>normals := [(0, 0, 1), (0, 0, 0)]\<rparr>"
  have "object_sized tri_object"
    by (simp add: object_sized_def frame_sized_def tri_object_def tri_frame_def tri_header_def)
  from ReadData_correct_sized [OF this tri_swap]
  have obj: "ReadData_object exact_ops tri_header (drop 16 tri_file) = Inr (tri_object\<lparr>frames := [fr]\<rparr>)"
    by (simp add: ReadData_object_def tri_file_frames tri_scale)
      (simp add: tri_object_def tri_frame_def fr_def corrected_frame_def correct_normal_eq)
  have weld: "ReadData_weld (tri_object\<lparr>frames := [fr]\<rparr>) = Inr (tri_table, [0, 1, 2])"
    by (simp add: tri_object_def tri_frame_def tri_header_def tri_table_def fr_def
      ReadData_weld_def weld_corner_def int_mul_def INT_MAX_def empty_VertEntry_def run_simps)
  have fill: "ReadData_fill fr tri_table =
      Inr ([0, 0, 0, 1, 0, 0, 0, 1, 0], [5, 6, 5, 6, 5, 6], [0, 0, 1, 0, 0, 0, 0, 0, 0])"
    by (simp add: fr_def tri_frame_def tri_table_def ReadData_fill_def fill_indices_exact float_of_nat_def float_mul_def INT_MAX_def
      fill_slot_def store3_def
        store2_def run_simps)
  have "ReadData exact_ops tri_header (drop 16 tri_file) = Inr tri_mesh"
    by (simp add: ReadData_def obj weld vector_at_def fill tri_mesh_def)
  then show ?thesis
    by (simp add: LoadFromHandle_header [OF len] tri_file_header hv)
qed

subsection \<open>What NeedsNormalSwap returns\<close>

lemma ebind_assoc: "ebind (ebind m f) g = ebind m (\<lambda>x. ebind (f x) g)"
  by (cases m) simp_all

lemma efold_sticky_flag:
  assumes "efold (\<lambda>x b. ebind (g x) (\<lambda>c. Inr (if P c then True else b))) xs b0 = Inr b"
  shows "b \<longleftrightarrow> b0 \<or> (\<exists>x \<in> set xs. \<exists>c. g x = Inr c \<and> P c)"
  using assms
proof (induction xs arbitrary: b0)
  case Nil
  then show ?case by simp
next
  case (Cons x xs)
  from Cons.prems obtain c where c: "g x = Inr c"
    and rest: "efold (\<lambda>x b. ebind (g x) (\<lambda>c. Inr (if P c then True else b))) xs
                 (if P c then True else b0) = Inr b"
    by (auto simp: ebind_eq_Inr)
  from Cons.IH [OF rest] c show ?case by auto
qed

lemma efold_counter:
  assumes "efold (\<lambda>x (c::int). ebind (h x) (\<lambda>b. Inr (if b then c + 1 else c))) xs c0 = Inr c"
  shows "c = c0 + int (length (filter (\<lambda>x. h x = Inr True) xs))"
  using assms
proof (induction xs arbitrary: c0)
  case Nil
  then show ?case by simp
next
  case (Cons x xs)
  from Cons.prems obtain b where b: "h x = Inr b"
    and rest: "efold (\<lambda>x (c::int). ebind (h x) (\<lambda>b. Inr (if b then c + 1 else c))) xs
                 (if b then c0 + 1 else c0) = Inr c"
    by (auto simp: ebind_eq_Inr)
  from Cons.IH [OF rest] b show ?case by auto
qed

text \<open>The flag is set exactly when some frame's count of voting faces exceeds a quarter
  of the face count, and a frame's count is the number of its faces that vote.\<close>

lemma NeedsNormalSwap_Inr:
  assumes "NeedsNormalSwap ops obj = Inr need"
  shows "need \<longleftrightarrow>
     (\<exists>f < nat (num_frames (info obj)). \<exists>c.
        ebind (vector_at (frames obj) (int f)) (normal_flip_count ops (num_faces (info obj))) = Inr c \<and>
        c_div (num_faces (info obj)) 4 < c)"
proof -
  have "NeedsNormalSwap ops obj =
      efold (\<lambda>f b. ebind (ebind (vector_at (frames obj) (int f))
                             (normal_flip_count ops (num_faces (info obj))))
                      (\<lambda>c. Inr (if c_div (num_faces (info obj)) 4 < c then True else b)))
        [0..<nat (num_frames (info obj))] False"
    unfolding NeedsNormalSwap_def
    by (simp add: ebind_assoc)
  with assms efold_sticky_flag [where P = "\<lambda>c. c_div (num_faces (info obj)) 4 < c"
      and g = "\<lambda>f. ebind (vector_at (frames obj) (int f)) (normal_flip_count ops (num_faces (info obj)))"
      and xs = "[0..<nat (num_frames (info obj))]" and ?b0.0 = False and b = need]
  show ?thesis by auto
qed

lemma normal_flip_count_Inr:
  assumes "normal_flip_count ops nfaces fr = Inr c"
  shows "c = int (length (filter (\<lambda>i. ebind (vector_at (faces fr) (int i)) (face_flip_vote ops fr) = Inr True)
                    [0..<nat nfaces]))"
proof -
  have "normal_flip_count ops nfaces fr =
      efold (\<lambda>i c. ebind (ebind (vector_at (faces fr) (int i)) (face_flip_vote ops fr))
                      (\<lambda>b. Inr (if b then c + 1 else c)))
        [0..<nat nfaces] 0"
    unfolding normal_flip_count_def
    by (simp add: ebind_assoc)
  with assms efold_counter [where h = "\<lambda>i. ebind (vector_at (faces fr) (int i)) (face_flip_vote ops fr)"
      and xs = "[0..<nat nfaces]" and ?c0.0 = 0 and c = c]
  show ?thesis by simp
qed

subsection \<open>A table whose size the float arithmetic rounds\<close>

lemma records_replicate:
  "sz * n \<le> m \<Longrightarrow> records sz n (replicate m x) = replicate n (replicate sz x)"
proof (induction n arbitrary: m)
  case 0
  then show ?case by simp
next
  case (Suc n)
  then have "sz \<le> m" "sz * n \<le> m - sz" by simp_all
  with Suc.IH [of "m - sz"] show ?case by simp
qed

lemma efold_skip: "(\<And>x. x \<in> set xs \<Longrightarrow> body x s = Inr s) \<Longrightarrow> efold body xs s = Inr s"
  by (induction xs) simp_all

lemma ReadData_fill_empty_table:
  "ReadData_fill fr (replicate k empty_VertEntry) =
     Inr (replicate (float_mul (float_of_nat k) 3) 0, replicate (float_mul (float_of_nat k) 2) 0,
          replicate (float_mul (float_of_nat k) 3) 0)"
proof -
  have "efold (fill_slot fr (replicate k empty_VertEntry)) (fill_indices k) s = Inr s" for s
    by (rule efold_skip)
      (auto simp: fill_slot_def vector_at_def empty_VertEntry_def dest: fill_indices_less)
  then show ?thesis
    by (simp add: ReadData_fill_def Let_def)
qed

lemma ReadData_weld_no_faces:
  assumes "num_faces (info obj) = 0" and "frames obj = fr # frs"
    and "0 \<le> num_verts fr" and "num_verts fr * 2 \<le> INT_MAX"
  shows "ReadData_weld obj = Inr (replicate (nat (num_verts fr)) empty_VertEntry, [])"
  using assms
  by (simp add: ReadData_weld_def vector_at_def vector_size_def int_mul_def INT_MAX_def)

lemma wide_file_header: "file_header wide_file = wide_header"
  by (simp add: wide_file_def wide_header_def file_header_def JoeHeader_of_bytes_def field_def
      int32_of_bytes_def signed_of_def)

lemma wide_file_frames:
  "ReadData_frames ops wide_header (drop 16 wide_file) =
     Inr (\<lparr>info = wide_header, frames = [wide_frame ops]\<rparr>, [])"
  by (simp add: wide_file_def wide_header_def wide_frame_def ReadData_frames_def vector_size_def
      read_frame_def BinaryRead_def read_int_def int32_of_bytes_def signed_of_def
      records_replicate)


lemma wide_ReadData_object:
  "ReadData_object ops wide_header (drop 16 wide_file) = Inr (wide_object ops)"
proof -
  define obj0 where "obj0 = \<lparr>info = wide_header, frames = [wide_frame ops]\<rparr>"
  have fr: "ReadData_frames ops wide_header (drop 16 wide_file) = Inr (obj0, [])"
    by (simp add: wide_file_frames obj0_def)
  from ReadData_frames_sized(1) [OF fr] have "object_sized obj0" .
  then have "ReadData_scale ops obj0 = Inr (obj0\<lparr>frames := map (scaled_frame ops) (frames obj0)\<rparr>)"
    by (rule ReadData_scale_sized)
  then have sc: "ReadData_scale ops obj0 = Inr (wide_object ops)"
    by (simp add: obj0_def wide_object_def)
  have "NeedsNormalSwap ops (wide_object ops) = Inr False"
    by (simp add: NeedsNormalSwap_def normal_flip_count_def c_div_def wide_object_def
        wide_header_def vector_at_def)
  then have "ReadData_correct ops (wide_object ops) = Inr (wide_object ops)"
    by (simp add: ReadData_correct_def)
  with fr sc show ?thesis
    by (simp add: ReadData_object_def)
qed

lemma wide_weld:
  "ReadData_weld (wide_object ops) = Inr (replicate 5592407 empty_VertEntry, [])"
proof -
  have "ReadData_weld (wide_object ops)
      = Inr (replicate (nat (num_verts (scaled_frame ops (wide_frame ops)))) empty_VertEntry, [])"
    by (rule ReadData_weld_no_faces [where frs = "[]"])
      (simp_all add: wide_object_def wide_header_def wide_frame_def scaled_frame_def INT_MAX_def)
  then show ?thesis
    by (simp add: scaled_frame_def wide_frame_def)
qed

lemma float_mul_wide: "float_mul (float_of_nat 5592407) 3 = 16777220"
  "float_mul (float_of_nat 5592407) 2 = 11184814"
  by (simp_all add: float_mul_def float_of_nat_def bit_length.simps Let_def)

lemma wide_fill:
  "ReadData_fill fr (replicate 5592407 empty_VertEntry) =
     Inr (replicate 16777220 0, replicate 11184814 0, replicate 16777220 0)"
  by (simp add: ReadData_fill_empty_table float_mul_wide)

lemma wide_load:
  "LoadFromHandle ops wide_file =
     Inr \<lparr>m_faces = [], m_vertices = replicate 16777220 0, m_normals = replicate 16777220 0,
          m_texcoords = replicate 11184814 0\<rparr>"
proof -
  have len: "16 \<le> length wide_file" by (simp add: wide_file_def)
  have fr0: "vector_at (frames (wide_object ops)) 0 = Inr (scaled_frame ops (wide_frame ops))"
    by (simp add: vector_at_def wide_object_def)
  have "ReadData ops wide_header (drop 16 wide_file) =
     Inr \<lparr>m_faces = [], m_vertices = replicate 16777220 0, m_normals = replicate 16777220 0,
          m_texcoords = replicate 11184814 0\<rparr>"
    by (simp add: ReadData_def wide_ReadData_object wide_weld fr0 wide_fill)
  moreover have "version wide_header = 3" "num_faces wide_header = 0"
    by (simp_all add: wide_header_def)
  ultimately show ?thesis
    by (simp add: LoadFromHandle_header [OF len] wide_file_header)
qed

section \<open>The claims\<close>

text \<open>
  \<^bold>\<open>C1\<close>, as amended.  A file whose header has version 3, a face count of at most 32000
  and at least one frame, whose frames are all read in full with no negative count
  (\<open>ReadData_frames\<close> returns the decoded object), whose faces name only vertices and normals
  that their frame has (and, in frame 0, no negative texture coordinate), and whose
  vertex count keeps three times the welded vertex count within \<open>2 ^ 24\<close>, is loaded
  successfully, and the index array handed to the mesh holds three entries per face.
  The face count is then not negative, because reading a frame resizes a vector to it.
\<close>

theorem load_succeeds:
  assumes len: "16 \<le> length f"
    and version: "version (file_header f) = 3"
    and faces: "num_faces (file_header f) \<le> 32000"
    and frames: "1 \<le> num_frames (file_header f)"
    and reads: "ReadData_frames ops (file_header f) (drop 16 f) = Inr (obj, rest)"
    and range: "indices_in_range obj"
    and small: "3 * (num_verts (hd (frames obj)) + 3 * num_faces (file_header f)) \<le> 2 ^ 24"
  shows "\<exists>m. LoadFromHandle ops f = Inr m \<and> int (length (m_faces m)) = 3 * num_faces (file_header f)"
proof -
  note sized = ReadData_frames_sized [OF reads]
  from ReadData_object_succeeds [OF reads range] obtain need where
    obj2: "ReadData_object ops (file_header f) (drop 16 f) =
       Inr (if need then corrected_object (scaled_object ops obj) else scaled_object ops obj)"
    by blast
  define obj2 where "obj2 = (if need then corrected_object (scaled_object ops obj) else scaled_object ops obj)"
  have s2: "object_sized obj2" and r2: "indices_in_range obj2" and i2: "info obj2 = file_header f"
    using sized range by (simp_all add: obj2_def)
  from sized frames obtain fr0 frs0 where frs0: "frames obj = fr0 # frs0"
    by (cases "frames obj") (auto simp: object_sized_def)
  then have nv: "num_verts (hd (frames obj2)) = num_verts (hd (frames obj))"
    by (cases need) (simp_all add: obj2_def scaled_object_def corrected_object_def)
  from ReadData_weld_succeeds [OF s2 r2] frames faces small i2 nv
  obtain vm vf where weld: "ReadData_weld obj2 = Inr (vm, vf)" and len_vm: "3 * length vm \<le> 2 ^ 24"
    and slots: "\<forall>e \<in> set vm. slot_in_range (hd (frames obj2)) e"
    by auto
  from frs0 have "frames obj2 \<noteq> []"
    by (cases need) (simp_all add: obj2_def scaled_object_def corrected_object_def)
  then obtain fr frs where frs: "frames obj2 = fr # frs"
    by (cases "frames obj2") auto
  with s2 have "frame_sized (num_faces (info obj2)) fr"
    by (simp add: object_sized_def)
  from ReadData_fill_succeeds [OF this _ len_vm] slots frs
  obtain vv vt vn where fill: "ReadData_fill fr vm = Inr (vv, vt, vn)"
    by (metis list.sel(1) prod_cases3)
  have "ReadData ops (file_header f) (drop 16 f) =
      Inr \<lparr>m_faces = vf, m_vertices = vv, m_normals = vn, m_texcoords = vt\<rparr>"
    using obj2 weld frs fill by (simp add: ReadData_def obj2_def vector_at_def)
  with len version faces have "LoadFromHandle ops f =
      Inr \<lparr>m_faces = vf, m_vertices = vv, m_normals = vn, m_texcoords = vt\<rparr>"
    by (simp add: LoadFromHandle_header)
  moreover from ReadData_weld_indices(1) [OF weld] i2 have "int (length vf) = 3 * num_faces (file_header f)"
    by simp
  ultimately show ?thesis by simp
qed

theorem load_succeeds_witness:
  "16 \<le> length quad_file \<and> version (file_header quad_file) = 3 \<and>
   num_faces (file_header quad_file) \<le> 32000 \<and> 1 \<le> num_frames (file_header quad_file) \<and>
   ReadData_frames exact_ops (file_header quad_file) (drop 16 quad_file) = Inr (quad_object, []) \<and>
   indices_in_range quad_object \<and>
   3 * (num_verts (hd (frames quad_object)) + 3 * num_faces (file_header quad_file)) \<le> 2 ^ 24 \<and>
   (\<exists>m. LoadFromHandle exact_ops quad_file = Inr m \<and>
        int (length (m_faces m)) = 3 * num_faces (file_header quad_file))"
proof -
  have len: "16 \<le> length quad_file" by (simp add: quad_file_def)
  have v: "version (file_header quad_file) = 3" and nf: "num_faces (file_header quad_file) \<le> 32000"
    and nfr: "1 \<le> num_frames (file_header quad_file)"
    by (simp_all add: quad_file_header quad_header_def)
  have reads: "ReadData_frames exact_ops (file_header quad_file) (drop 16 quad_file) = Inr (quad_object, [])"
    by (simp add: quad_file_header quad_file_frames)
  have small: "3 * (num_verts (hd (frames quad_object)) + 3 * num_faces (file_header quad_file)) \<le> 2 ^ 24"
    by (simp add: quad_file_header quad_header_def quad_object_def quad_frame_def)
  from load_succeeds [OF len v nf nfr reads quad_in_range small] len v nf nfr reads quad_in_range small
  show ?thesis by blast
qed

text \<open>
  The claim as stated asks for neither a frame nor a face count that is not negative.
  A header with version 3 and no frame passes both checks, no read falls short and no
  face index is out of range, yet frame 0, which the welder reads, does not exist.  A
  header with face count \<open>-1\<close> passes both checks as well, and the first frame's face
  vector is then resized to a negative size.
\<close>

theorem load_succeeds_counterexample:
  "version (file_header no_frames_file) = 3 \<and>
   num_faces (file_header no_frames_file) \<le> 32000 \<and>
   ReadData_frames exact_ops (file_header no_frames_file) (drop 16 no_frames_file) =
     Inr (\<lparr>info = file_header no_frames_file, frames = []\<rparr>, []) \<and>
   indices_in_range (\<lparr>info = file_header no_frames_file, frames = []\<rparr> :: real JoeObject) \<and>
   LoadFromHandle exact_ops no_frames_file = Inl OutOfBounds \<and>
   version (file_header negative_faces_file) = 3 \<and>
   num_faces (file_header negative_faces_file) = - 1 \<and>
   LoadFromHandle exact_ops negative_faces_file = Inl LengthError"
proof -
  define hz where "hz = \<lparr>magic = 7, version = 3, num_faces = 0, num_frames = 0\<rparr>"
  define hn where "hn = \<lparr>magic = 7, version = 3, num_faces = - 1, num_frames = 1\<rparr>"
  have h0: "file_header no_frames_file = hz"
    by (simp add: no_frames_file_def hz_def decode_simps)
  have h1: "file_header negative_faces_file = hn"
    by (simp add: negative_faces_file_def hn_def decode_simps)
  have d0: "drop 16 no_frames_file = []" and n0: "16 \<le> length no_frames_file"
    by (simp_all add: no_frames_file_def)
  have d1: "drop 16 negative_faces_file = []" and n1: "16 \<le> length negative_faces_file"
    by (simp_all add: negative_faces_file_def)
  have r0: "ReadData_frames exact_ops hz [] = Inr (\<lparr>info = hz, frames = []\<rparr>, [])"
    by (simp add: hz_def ReadData_frames_def vector_size_def)
  have r1: "ReadData_frames exact_ops hn [] = Inl LengthError"
    by (simp add: hn_def ReadData_frames_def vector_size_def read_frame_def)
  have nfr: "num_frames hz = 0" by (simp add: hz_def)
  have "ReadData exact_ops hz [] = Inl OutOfBounds"
    by (simp add: ReadData_def ReadData_object_def r0 ReadData_scale_def update_each_def
        ReadData_correct_def NeedsNormalSwap_def ReadData_weld_def vector_at_def nfr)
  then have l0: "LoadFromHandle exact_ops no_frames_file = Inl OutOfBounds"
    by (simp add: LoadFromHandle_header [OF n0] h0 d0) (simp add: hz_def)
  have "ReadData exact_ops hn [] = Inl LengthError"
    by (simp add: ReadData_def ReadData_object_def r1)
  then have l1: "LoadFromHandle exact_ops negative_faces_file = Inl LengthError"
    by (simp add: LoadFromHandle_header [OF n1] h1 d1) (simp add: hn_def)
  have "indices_in_range (\<lparr>info = hz, frames = []\<rparr> :: real JoeObject)"
    by (simp add: indices_in_range_def)
  with r0 l0 l1 show ?thesis
    by (simp add: h0 h1 d0) (simp add: hz_def hn_def)
qed

text \<open>
  What the welder does keep apart: in the table it leaves behind, two distinct populated
  entries of which at least one lies among the first \<open>num_verts\<close> slots (the slots seeded
  one per source vertex) hold different (vertex, normal, texture coordinate) triples.
\<close>

lemma seeded_entries_distinct:
  assumes obj: "ReadData_object ops hdr f = Inr obj"
    and weld: "ReadData_weld obj = Inr (vert_master, v_faces)"
    and frs: "frames obj = fr # frs"
    and i: "i < length vert_master" and j: "j < length vert_master" and ij: "i \<noteq> j"
    and pi: "populated (vert_master ! i)" and pj: "populated (vert_master ! j)"
    and seed: "i < nat (num_verts fr) \<or> j < nat (num_verts fr)"
  shows "triple_of (vert_master ! i) \<noteq> triple_of (vert_master ! j)"
proof -
  from weld obtain fr' frs' where frs': "frames obj = fr' # frs'" and nv: "0 \<le> num_verts fr'"
    and run: "efold (weld_corner fr') (List.product [0..<nat (num_faces (info obj))] [0..<3])
           (replicate (nat (num_verts fr')) empty_VertEntry, replicate (nat (num_faces (info obj) * 3)) 0)
         = Inr (vert_master, v_faces)"
    by (rule ReadData_weld_Inr)
  from frs frs' have fr': "fr' = fr" by simp
  define n where "n = nat (num_verts fr)"
  have range: "\<forall>c \<in> set (List.product [0..<nat (num_faces (info obj))] [0..<3]). fst (corner fr c) < int n"
    using ReadData_object_corner_range [OF obj frs] nv fr' by (auto simp: n_def)
  note inv = weld_loop_distinct [OF run [unfolded fr', folded n_def] range]
  have differ: "triple_of (vert_master ! a) \<noteq> triple_of (vert_master ! b)"
    if a: "a < n" and b: "b < length vert_master" and ab: "a \<noteq> b"
      and pa: "populated (vert_master ! a)" and pb: "populated (vert_master ! b)" for a b
  proof (cases "b < n")
    case True
    with inv(1) a pa pb ab show ?thesis
      by (auto simp: triple_of_def)
  next
    case False
    with inv(2) b have B: "0 \<le> original_index (vert_master ! b)"
      "(norm_index (vert_master ! nat (original_index (vert_master ! b))),
        tex_index (vert_master ! nat (original_index (vert_master ! b))))
        \<noteq> (norm_index (vert_master ! b), tex_index (vert_master ! b))"
      by auto
    from inv(1) a pa have A: "original_index (vert_master ! a) = int a" by simp
    show ?thesis
    proof (cases "nat (original_index (vert_master ! b)) = a")
      case True
      with B(2) show ?thesis by (auto simp: triple_of_def)
    next
      case False
      with A B(1) show ?thesis by (auto simp: triple_of_def)
    qed
  qed
  from seed show ?thesis
  proof
    assume "i < nat (num_verts fr)"
    from differ [OF this [folded n_def] j ij pi pj] show ?thesis .
  next
    assume "j < nat (num_verts fr)"
    from differ [OF this [folded n_def] i ij [symmetric] pj pi] show ?thesis by simp
  qed
qed

text \<open>
  \<^bold>\<open>C2\<close>.  The claim asks that any two distinct populated entries of the final table
  hold different (vertex, normal, texture coordinate) triples.  The code compares a corner
  with the seeded slot of its vertex only (\<^verbatim>\<open>vert_master[vertexIndex]\<close>), so a triple that
  differs from the seeded one is appended each time it occurs.  The file \<open>dup_file\<close> has
  three faces over the vertices 0, 1, 2, the second and the third giving vertex 0 the
  normal 1 where the first gave it the normal 0: the load succeeds, and slots 3 and 4 of
  the table both hold vertex 0, normal 1, texture coordinate 0.
\<close>

theorem duplicate_table_entries:
  "LoadFromHandle exact_ops dup_file =
     Inr \<lparr>m_faces = [0, 1, 2, 3, 1, 2, 4, 1, 2],
          m_vertices = [0, 0, 0, 1, 0, 0, 0, 1, 0, 0, 0, 0, 0, 0, 0],
          m_normals = [0, 0, 0, 0, 0, 0, 0, 0, 0, 0, 0, - 1, 0, 0, - 1],
          m_texcoords = [5, 6, 5, 6, 5, 6, 5, 6, 5, 6]\<rparr> \<and>
   ReadData_object exact_ops (file_header dup_file) (drop 16 dup_file) = Inr dup_object \<and>
   ReadData_weld dup_object = Inr (dup_table, [0, 1, 2, 3, 1, 2, 4, 1, 2]) \<and>
   3 < length dup_table \<and> 4 < length dup_table \<and>
   populated (dup_table ! 3) \<and> populated (dup_table ! 4) \<and>
   triple_of (dup_table ! 3) = triple_of (dup_table ! 4)"
proof -
  have fill: "ReadData_fill dup_frame dup_table =
      Inr ([0, 0, 0, 1, 0, 0, 0, 1, 0, 0, 0, 0, 0, 0, 0], [5, 6, 5, 6, 5, 6, 5, 6, 5, 6],
           [0, 0, 0, 0, 0, 0, 0, 0, 0, 0, 0, - 1, 0, 0, - 1])"
    by (simp add: dup_frame_def dup_table_def ReadData_fill_def fill_indices_exact float_of_nat_def float_mul_def INT_MAX_def
      fill_slot_def store3_def store2_def
        run_simps)
  have fr0: "vector_at (frames dup_object) 0 = Inr dup_frame"
    by (simp add: vector_at_def dup_object_def)
  have rd: "ReadData exact_ops dup_header (drop 16 dup_file) =
     Inr \<lparr>m_faces = [0, 1, 2, 3, 1, 2, 4, 1, 2],
          m_vertices = [0, 0, 0, 1, 0, 0, 0, 1, 0, 0, 0, 0, 0, 0, 0],
          m_normals = [0, 0, 0, 0, 0, 0, 0, 0, 0, 0, 0, - 1, 0, 0, - 1],
          m_texcoords = [5, 6, 5, 6, 5, 6, 5, 6, 5, 6]\<rparr>"
    by (simp add: ReadData_def dup_ReadData_object dup_weld fr0 fill)
  have len: "16 \<le> length dup_file" by (simp add: dup_file_def)
  have hv: "version dup_header = 3" "num_faces dup_header = 3" by (simp_all add: dup_header_def)
  have load: "LoadFromHandle exact_ops dup_file =
     Inr \<lparr>m_faces = [0, 1, 2, 3, 1, 2, 4, 1, 2],
          m_vertices = [0, 0, 0, 1, 0, 0, 0, 1, 0, 0, 0, 0, 0, 0, 0],
          m_normals = [0, 0, 0, 0, 0, 0, 0, 0, 0, 0, 0, - 1, 0, 0, - 1],
          m_texcoords = [5, 6, 5, 6, 5, 6, 5, 6, 5, 6]\<rparr>"
    by (simp add: LoadFromHandle_header [OF len] dup_file_header hv rd)
  have "3 < length dup_table" "4 < length dup_table"
    "populated (dup_table ! 3)" "populated (dup_table ! 4)"
    "triple_of (dup_table ! 3) = triple_of (dup_table ! 4)"
    by (simp_all add: dup_table_def populated_def triple_of_def)
  with load dup_ReadData_object dup_weld show ?thesis
    by (simp add: dup_file_header)
qed

text \<open>
  What holds of every successful load: each entry of the index array handed to the mesh
  is at least 0 and below the length of the final \<open>VertEntry\<close> table; the flat arrays
  have the sizes that the float products give, which are three, two and three floats for
  each entry of the table while three times its length is at most \<open>2 ^ 24\<close>.
\<close>

lemma welded_indices_in_range:
  assumes "LoadFromHandle ops f = Inr m"
  shows "\<exists>obj vert_master.
     ReadData_object ops (file_header f) (drop 16 f) = Inr obj \<and>
     ReadData_weld obj = Inr (vert_master, m_faces m) \<and>
     (\<forall>x \<in> set (m_faces m). 0 \<le> x \<and> x < int (length vert_master)) \<and>
     length (m_vertices m) = float_mul (float_of_nat (length vert_master)) 3 \<and>
     length (m_normals m) = float_mul (float_of_nat (length vert_master)) 3 \<and>
     length (m_texcoords m) = float_mul (float_of_nat (length vert_master)) 2 \<and>
     (3 * length vert_master \<le> 2 ^ 24 \<longrightarrow>
        length (m_vertices m) = 3 * length vert_master \<and>
        length (m_normals m) = 3 * length vert_master \<and>
        length (m_texcoords m) = 2 * length vert_master)"
proof -
  from LoadFromHandle_Inr(4) [OF assms] obtain obj vm fr frs where
    obj: "ReadData_object ops (file_header f) (drop 16 f) = Inr obj" and
    weld: "ReadData_weld obj = Inr (vm, m_faces m)" and
    fill: "ReadData_fill fr vm = Inr (m_vertices m, m_texcoords m, m_normals m)"
    by (rule ReadData_Inr)
  from ReadData_weld_indices(2) [OF weld] ReadData_fill_Inr(1,2,3) [OF fill]
    ReadData_fill_lengths [OF fill] obj weld
  show ?thesis by blast
qed

text \<open>
  \<^bold>\<open>C3\<close>.  The claim asks that the length of the final \<open>VertEntry\<close> table be also the
  length, in vertices, of the flat position, normal and texture coordinate arrays.  The
  code sizes the arrays from a \<^verbatim>\<open>float\<close> copy of the table length, and the product with 3
  is rounded once it passes \<open>2 ^ 24\<close>.  The file \<open>wide_file\<close> (no face, 5592407 vertices)
  is loaded with success; its table has 5592407 entries, and the position and normal
  arrays have 16777220 floats each, one fewer than \<open>3 * 5592407 = 16777221\<close>: the last
  entry of the table has no complete vertex in them.
\<close>

theorem float_count_short_arrays:
  "LoadFromHandle exact_ops wide_file = Inr wide_mesh \<and>
   (\<exists>obj vert_master.
      ReadData_object exact_ops (file_header wide_file) (drop 16 wide_file) = Inr obj \<and>
      ReadData_weld obj = Inr (vert_master, m_faces wide_mesh) \<and>
      length vert_master = 5592407 \<and>
      length (m_vertices wide_mesh) = 16777220 \<and>
      length (m_normals wide_mesh) = 16777220 \<and>
      length (m_texcoords wide_mesh) = 2 * length vert_master \<and>
      length (m_vertices wide_mesh) < 3 * length vert_master \<and>
      length (m_normals wide_mesh) < 3 * length vert_master)"
proof -
  have load: "LoadFromHandle exact_ops wide_file = Inr wide_mesh"
    by (simp add: wide_load wide_mesh_def)
  have "ReadData_object exact_ops (file_header wide_file) (drop 16 wide_file) = Inr (wide_object exact_ops)"
    by (simp add: wide_file_header wide_ReadData_object)
  moreover have "ReadData_weld (wide_object exact_ops) = Inr (replicate 5592407 empty_VertEntry, m_faces wide_mesh)"
    by (simp add: wide_weld wide_mesh_def)
  moreover have "length (replicate 5592407 empty_VertEntry) = 5592407"
    "length (m_vertices wide_mesh) = 16777220" "length (m_normals wide_mesh) = 16777220"
    "length (m_texcoords wide_mesh) = 2 * length (replicate 5592407 empty_VertEntry)"
    "length (m_vertices wide_mesh) < 3 * length (replicate 5592407 empty_VertEntry)"
    "length (m_normals wide_mesh) < 3 * length (replicate 5592407 empty_VertEntry)"
    by (simp_all add: wide_mesh_def)
  ultimately show ?thesis using load by blast
qed



text \<open>
  \<^bold>\<open>C6\<close>.  The face limit is inclusive.  For a header of version 3, whatever follows
  the header in the storage (also nothing at all): with a face count of at most 32000, and
  so with 32000, the load is what \<open>ReadData\<close> makes of the rest; with a greater face
  count, and so with 32001, the load returns false with the message
  \<open>n faces (max 32000). \<close> and nothing after the header is read.
\<close>

theorem face_cap_boundary:
  assumes "length hb = 16" and "version (JoeHeader_of_bytes hb) = 3"
  shows "(num_faces (JoeHeader_of_bytes hb) \<le> 32000 \<longrightarrow>
            LoadFromHandle ops (hb @ rest) = ReadData ops (JoeHeader_of_bytes hb) rest) \<and>
         (32000 < num_faces (JoeHeader_of_bytes hb) \<longrightarrow>
            LoadFromHandle ops (hb @ rest) =
              Inl (FaceCountExceeded (num_faces (JoeHeader_of_bytes hb)) 32000) \<and>
            returns_false (FaceCountExceeded (num_faces (JoeHeader_of_bytes hb)) 32000) \<and>
            err_output (FaceCountExceeded (num_faces (JoeHeader_of_bytes hb)) 32000) =
              show_int (num_faces (JoeHeader_of_bytes hb)) @ '' faces (max 32000). '')"
  using assms by (simp add: LoadFromHandle_append show_int_32000)

theorem face_cap_boundary_witness:
  "length faces_32000_header = 16 \<and> version (JoeHeader_of_bytes faces_32000_header) = 3 \<and>
   num_faces (JoeHeader_of_bytes faces_32000_header) = 32000 \<and>
   (\<forall>rest. LoadFromHandle exact_ops (faces_32000_header @ rest) =
      ReadData exact_ops (JoeHeader_of_bytes faces_32000_header) rest) \<and>
   length faces_32001_header = 16 \<and> version (JoeHeader_of_bytes faces_32001_header) = 3 \<and>
   num_faces (JoeHeader_of_bytes faces_32001_header) = 32001 \<and>
   (\<forall>rest. LoadFromHandle exact_ops (faces_32001_header @ rest) =
      Inl (FaceCountExceeded 32001 32000)) \<and>
   returns_false (FaceCountExceeded 32001 32000) \<and>
   err_output (FaceCountExceeded 32001 32000) = ''32001 faces (max 32000). ''"
proof -
  have a: "length faces_32000_header = 16" "version (JoeHeader_of_bytes faces_32000_header) = 3"
    "num_faces (JoeHeader_of_bytes faces_32000_header) = 32000"
    by (simp_all add: faces_32000_header_def decode_simps)
  have b: "length faces_32001_header = 16" "version (JoeHeader_of_bytes faces_32001_header) = 3"
    "num_faces (JoeHeader_of_bytes faces_32001_header) = 32001"
    by (simp_all add: faces_32001_header_def decode_simps)
  have c: "show_int 32001 = ''32001''"
    by code_simp
  from face_cap_boundary [OF a(1,2), of exact_ops] face_cap_boundary [OF b(1,2), of exact_ops] a b c
  show ?thesis by simp
qed

text \<open>
  \<^bold>\<open>C7\<close>.  The version is compared for equality with 3.  Whatever follows the header
  in the storage: with any other version the load returns false with the message
  \<open>Invalid file format (Version is v not 3). \<close> and nothing after the header is read;
  with version 3 the load goes on to the face limit.
\<close>

theorem version_exact:
  assumes "length hb = 16"
  shows "(version (JoeHeader_of_bytes hb) \<noteq> 3 \<longrightarrow>
            LoadFromHandle ops (hb @ rest) = Inl (VersionMismatch (version (JoeHeader_of_bytes hb)) 3) \<and>
            returns_false (VersionMismatch (version (JoeHeader_of_bytes hb)) 3) \<and>
            err_output (VersionMismatch (version (JoeHeader_of_bytes hb)) 3) =
              ''Invalid file format (Version is '' @ show_int (version (JoeHeader_of_bytes hb)) @
              '' not 3). '') \<and>
         (version (JoeHeader_of_bytes hb) = 3 \<longrightarrow>
            LoadFromHandle ops (hb @ rest) =
              (if num_faces (JoeHeader_of_bytes hb) > 32000
               then Inl (FaceCountExceeded (num_faces (JoeHeader_of_bytes hb)) 32000)
               else ReadData ops (JoeHeader_of_bytes hb) rest))"
  using assms by (simp add: LoadFromHandle_append show_int_3)

theorem version_exact_witness:
  "length version_2_header = 16 \<and> length version_4_header = 16 \<and> length (take 16 quad_file) = 16 \<and>
   (\<forall>rest. LoadFromHandle exact_ops (version_2_header @ rest) = Inl (VersionMismatch 2 3)) \<and>
   err_output (VersionMismatch 2 3) = ''Invalid file format (Version is 2 not 3). '' \<and>
   (\<forall>rest. LoadFromHandle exact_ops (version_4_header @ rest) = Inl (VersionMismatch 4 3)) \<and>
   err_output (VersionMismatch 4 3) = ''Invalid file format (Version is 4 not 3). '' \<and>
   version (JoeHeader_of_bytes (take 16 quad_file)) = 3 \<and>
   (\<forall>rest. LoadFromHandle exact_ops (take 16 quad_file @ rest) =
      ReadData exact_ops (JoeHeader_of_bytes (take 16 quad_file)) rest)"
proof -
  have a: "length version_2_header = 16" "version (JoeHeader_of_bytes version_2_header) = 2"
    by (simp_all add: version_2_header_def decode_simps)
  have b: "length version_4_header = 16" "version (JoeHeader_of_bytes version_4_header) = 4"
    by (simp_all add: version_4_header_def decode_simps)
  have c: "length (take 16 quad_file) = 16" by (simp add: quad_file_def)
  have d: "JoeHeader_of_bytes (take 16 quad_file) = quad_header"
    using quad_file_header by (simp add: file_header_def)
  have e: "version quad_header = 3" "num_faces quad_header = 2"
    by (simp_all add: quad_header_def)
  from version_exact [OF a(1), of exact_ops] version_exact [OF b(1), of exact_ops]
    version_exact [OF c, of exact_ops] a b c d e show_int_2 show_int_4
  show ?thesis by simp
qed

text \<open>
  \<^bold>\<open>C8\<close>.  If in frame 0 any two face corners with the same vertex index have the
  same normal index and the same texture coordinate index, the table the welder leaves
  behind has exactly \<open>num_verts\<close> entries: nothing was appended.
\<close>

theorem unique_triples_keep_count:
  assumes weld: "ReadData_weld obj = Inr (vert_master, v_faces)"
    and frs: "frames obj = fr # frs"
    and unique: "\<forall>c \<in> set (List.product [0..<nat (num_faces (info obj))] [0..<3]).
                 \<forall>d \<in> set (List.product [0..<nat (num_faces (info obj))] [0..<3]).
                   fst (corner fr c) = fst (corner fr d) \<longrightarrow> corner fr c = corner fr d"
  shows "int (length vert_master) = num_verts fr"
proof -
  from weld obtain fr' frs' where frs': "frames obj = fr' # frs'" and nv: "0 \<le> num_verts fr'"
    and run: "efold (weld_corner fr') (List.product [0..<nat (num_faces (info obj))] [0..<3])
           (replicate (nat (num_verts fr')) empty_VertEntry, replicate (nat (num_faces (info obj) * 3)) 0)
         = Inr (vert_master, v_faces)"
    by (rule ReadData_weld_Inr)
  from frs frs' have fr': "fr' = fr" by simp
  from weld_loop_unique [OF run [unfolded fr'] unique] nv fr' show ?thesis by simp
qed

theorem unique_triples_keep_count_witness:
  "ReadData_weld tri_object = Inr (tri_table, [0, 1, 2]) \<and>
   frames tri_object = tri_frame # [] \<and>
   list_all (\<lambda>c. list_all (\<lambda>d. fst (corner tri_frame c) \<noteq> fst (corner tri_frame d) \<or>
                                corner tri_frame c = corner tri_frame d)
                (List.product [0..<nat (num_faces (info tri_object))] [0..<3]))
     (List.product [0..<nat (num_faces (info tri_object))] [0..<3]) \<and>
   int (length tri_table) = num_verts tri_frame \<and> num_verts tri_frame = 3"
proof -
  have frs: "frames tri_object = tri_frame # []" by (simp add: tri_object_def)
  have u: "list_all (\<lambda>c. list_all (\<lambda>d. fst (corner tri_frame c) \<noteq> fst (corner tri_frame d) \<or>
                                corner tri_frame c = corner tri_frame d)
                (List.product [0..<nat (num_faces (info tri_object))] [0..<3]))
     (List.product [0..<nat (num_faces (info tri_object))] [0..<3])"
    by (simp add: tri_object_def tri_header_def tri_frame_def corner_def upt_0_numeral upt_Suc0_numeral)
  then have unique: "\<forall>c \<in> set (List.product [0..<nat (num_faces (info tri_object))] [0..<3]).
                 \<forall>d \<in> set (List.product [0..<nat (num_faces (info tri_object))] [0..<3]).
                   fst (corner tri_frame c) = fst (corner tri_frame d) \<longrightarrow> corner tri_frame c = corner tri_frame d"
    unfolding list_all_iff by blast
  have nv: "num_verts tri_frame = 3" by (simp add: tri_frame_def)
  from unique_triples_keep_count [OF tri_weld frs unique] tri_weld frs u nv show ?thesis by simp
qed

text \<open>
  \<^bold>\<open>C9\<close>, as amended.  Let the object be decoded and welded, with a table small
  enough for the float-typed count to be exact.  Then filling the flat arrays succeeds
  however far the texture coordinate indices of the table lie above \<open>num_texcoords\<close>,
  and for every populated slot \<open>i\<close> the output texture coordinate is the source one when
  the slot's index is below \<open>num_texcoords\<close> and \<open>(0, 0)\<close> otherwise.  (The slots of a
  welded table have no negative texture coordinate index.)
\<close>

theorem texcoord_tolerance:
  assumes obj: "ReadData_object ops hdr f = Inr obj"
    and weld: "ReadData_weld obj = Inr (vert_master, v_faces)"
    and frs: "frames obj = fr # frs"
    and small: "3 * length vert_master \<le> 2 ^ 24"
  shows "\<exists>v_vertices v_texcoords v_normals.
     ReadData_fill fr vert_master = Inr (v_vertices, v_texcoords, v_normals) \<and>
     (\<forall>i < length vert_master. 0 \<le> original_index (vert_master ! i) \<longrightarrow>
        (v_texcoords ! (i * 2), v_texcoords ! (i * 2 + 1)) =
          (if tex_index (vert_master ! i) < num_texcoords fr
           then texcoords fr ! nat (tex_index (vert_master ! i))
           else (0, 0)))"
proof -
  from ReadData_object_sized(1) [OF obj] frs have sized: "frame_sized (num_faces (info obj)) fr"
    by (simp add: object_sized_def)
  have slots: "\<forall>e \<in> set vert_master. slot_in_range fr e"
    using weld_slots_in_range [OF obj weld frs] by blast
  from ReadData_fill_succeeds [OF sized slots small] obtain vv vt vn where
    fill: "ReadData_fill fr vert_master = Inr (vv, vt, vn)"
    by (metis prod_cases3)
  from small have "length vert_master \<le> 2 ^ 24" by simp
  from ReadData_fill_texcoords [OF fill this] fill show ?thesis
    by (auto simp: expected_texcoord_def)
qed

theorem texcoord_tolerance_witness:
  "ReadData_object exact_ops quad_header (drop 16 quad_file) = Inr quad_object \<and>
   ReadData_weld quad_object = Inr (quad_table, m_faces quad_mesh) \<and>
   frames quad_object = quad_frame # [] \<and>
   3 * length quad_table \<le> 2 ^ 24 \<and>
   num_texcoords quad_frame = 1 \<and> tex_index (quad_table ! 0) = 0 \<and> tex_index (quad_table ! 3) = 1 \<and>
   ReadData_fill quad_frame quad_table =
     Inr (m_vertices quad_mesh, m_texcoords quad_mesh, m_normals quad_mesh) \<and>
   m_texcoords quad_mesh = [5, 6, 5, 6, 5, 6, 0, 0, 5, 6] \<and>
   (\<exists>v_vertices v_texcoords v_normals.
     ReadData_fill quad_frame quad_table = Inr (v_vertices, v_texcoords, v_normals) \<and>
     (\<forall>i < length quad_table. 0 \<le> original_index (quad_table ! i) \<longrightarrow>
        (v_texcoords ! (i * 2), v_texcoords ! (i * 2 + 1)) =
          (if tex_index (quad_table ! i) < num_texcoords quad_frame
           then texcoords quad_frame ! nat (tex_index (quad_table ! i))
           else (0, 0))))"
proof -
  have frs: "frames quad_object = quad_frame # []" by (simp add: quad_object_def)
  have small: "3 * length quad_table \<le> 2 ^ 24" by (simp add: quad_table_def)
  have facts: "num_texcoords quad_frame = 1" "tex_index (quad_table ! 0) = 0"
    "tex_index (quad_table ! 3) = 1" "m_texcoords quad_mesh = [5, 6, 5, 6, 5, 6, 0, 0, 5, 6]"
    by (simp_all add: quad_frame_def quad_table_def quad_mesh_def)
  from texcoord_tolerance [OF quad_ReadData_object quad_weld frs small]
    quad_ReadData_object quad_weld frs small facts quad_fill
  show ?thesis by blast
qed

text \<open>
  The claim as stated lets no texture coordinate index outside the frame's range stop the
  load.  An index of at least \<open>num_texcoords\<close> does not, but a negative one fails the
  welder's assertion \<^verbatim>\<open>assert(ve.tex_index >= 0)\<close>: of two files that differ in one
  texture coordinate index only, the one with index 0 loads and the one with index
  \<open>-1\<close> does not.
\<close>

theorem texcoord_tolerance_counterexample:
  "length neg_tex_file = length tri_file \<and>
   take 28 neg_tex_file = take 28 tri_file \<and> drop 30 neg_tex_file = drop 30 tri_file \<and>
   ReadData_frames exact_ops (file_header neg_tex_file) (drop 16 neg_tex_file) = Inr (neg_tex_object, []) \<and>
   map textureIndex (faces neg_tex_frame) = [(- 1, 0, 0)] \<and> num_texcoords neg_tex_frame = 1 \<and>
   LoadFromHandle exact_ops neg_tex_file = Inl AssertionFailed \<and>
   ReadData_frames exact_ops (file_header tri_file) (drop 16 tri_file) = Inr (tri_object, []) \<and>
   map textureIndex (faces tri_frame) = [(0, 0, 0)] \<and>
   LoadFromHandle exact_ops tri_file = Inr tri_mesh"
proof -
  have "length neg_tex_file = length tri_file" "take 28 neg_tex_file = take 28 tri_file"
    "drop 30 neg_tex_file = drop 30 tri_file"
    by (simp_all add: neg_tex_file_def tri_file_def)
  moreover have "map textureIndex (faces neg_tex_frame) = [(- 1, 0, 0)]" "num_texcoords neg_tex_frame = 1"
    "map textureIndex (faces tri_frame) = [(0, 0, 0)]"
    by (simp_all add: neg_tex_frame_def tri_frame_def)
  ultimately show ?thesis
    using neg_tex_file_frames neg_tex_load tri_file_frames tri_load
    by (simp add: neg_tex_file_header tri_file_header)
qed

text \<open>
  \<^bold>\<open>C10\<close>.  Two files of the same length that agree from the fifth byte on, and so
  differ at most in the magic field, have the same load: the same error (and so the same
  message) or the same mesh.
\<close>

theorem magic_is_ignored:
  assumes len: "length f1 = length f2" and rest: "drop 4 f1 = drop 4 f2"
  shows "LoadFromHandle ops f1 = LoadFromHandle ops f2"
proof (cases "16 \<le> length f1")
  case False
  with len show ?thesis
    by (simp add: LoadFromHandle_def BinaryRead_def)
next
  case True
  note fields = header_fields_after_magic [OF rest]
  have "file_header f2 = (file_header f1)\<lparr>magic := magic (file_header f2)\<rparr>"
    using fields by simp
  then have "ReadData ops (file_header f2) (drop 16 f2) = ReadData ops (file_header f1) (drop 16 f2)"
    using ReadData_magic [where ops = ops and hdr = "file_header f1" and m = "magic (file_header f2)"
        and f = "drop 16 f2"] by simp
  moreover have "drop 16 f1 = drop 16 f2"
    using arg_cong [OF rest, of "drop 12"] by simp
  ultimately show ?thesis
    using True len fields by (simp add: LoadFromHandle_header)
qed

theorem magic_is_ignored_witness:
  "length ([9, 9, 9, 9] @ drop 4 quad_file) = length quad_file \<and>
   drop 4 ([9, 9, 9, 9] @ drop 4 quad_file) = drop 4 quad_file \<and>
   magic (file_header ([9, 9, 9, 9] @ drop 4 quad_file)) = 151587081 \<and>
   magic (file_header quad_file) = 7 \<and>
   LoadFromHandle exact_ops ([9, 9, 9, 9] @ drop 4 quad_file) = LoadFromHandle exact_ops quad_file \<and>
   LoadFromHandle exact_ops ([9, 9, 9, 9] @ drop 4 quad_file) = Inr quad_mesh"
proof -
  have a: "length ([9, 9, 9, 9] @ drop 4 quad_file) = length quad_file"
    by (simp add: quad_file_def)
  have b: "drop 4 ([9, 9, 9, 9] @ drop 4 quad_file) = drop 4 quad_file"
    by simp
  have c: "magic (file_header ([9, 9, 9, 9] @ drop 4 quad_file)) = 151587081"
    by (simp add: decode_simps)
  have d: "magic (file_header quad_file) = 7"
    by (simp add: quad_file_header quad_header_def)
  from magic_is_ignored [OF a b, of exact_ops] a b c d quad_load show ?thesis by simp
qed

end
